theory Spec2Isabelle
  imports Complex_Main
begin

section \<open>Geometries as polysplit sees them\<close>

text \<open>
  polysplit.cpp never computes with a coordinate: it copies the centroid's X and Y and the
  envelope's four bounds into the corners of a mask. Coordinates (C++ double) are therefore
  kept as a type parameter \<open>'c\<close>. A linear ring is its list of points, a polygon the list of
  its rings (the exterior ring first), a multipolygon the list of its member polygons.
  Every other OGR geometry type (points, line strings, collections, the 2.5D variants, whose
  type code is neither wkbPolygon nor wkbMultiPolygon) is \<open>OtherGeometry\<close>; the only thing
  the program asks of such a geometry is IsEmpty(), the flag it carries.
\<close>

type_synonym 'c OGRPoint = "'c \<times> 'c"
type_synonym 'c OGRLinearRing = "'c OGRPoint list"
type_synonym 'c OGRPolygon = "'c OGRLinearRing list"

datatype 'c OGRGeometry =
    Polygon "'c OGRPolygon"
  | MultiPolygon "'c OGRPolygon list"
  | OtherGeometry bool

record 'c OGREnvelope =
  MinX :: 'c
  MaxX :: 'c
  MinY :: 'c
  MaxY :: 'c

text \<open>The structural queries of OGR that the splitter uses.\<close>

definition getNumPoints :: "'c OGRLinearRing \<Rightarrow> int" where
  "getNumPoints ring = int (length ring)"

text \<open>getExteriorRing() is NULL for a polygon that has no ring.\<close>

definition getExteriorRing :: "'c OGRPolygon \<Rightarrow> 'c OGRLinearRing option" where
  "getExteriorRing polygon = (case polygon of [] \<Rightarrow> None | ring # _ \<Rightarrow> Some ring)"

text \<open>A polygon is empty when every ring is, a collection when every member is.\<close>

definition polygon_IsEmpty :: "'c OGRPolygon \<Rightarrow> bool" where
  "polygon_IsEmpty polygon = list_all (\<lambda>ring. ring = []) polygon"

fun IsEmpty :: "'c OGRGeometry \<Rightarrow> bool" where
  "IsEmpty (Polygon polygon) = polygon_IsEmpty polygon"
| "IsEmpty (MultiPolygon multi) = list_all polygon_IsEmpty multi"
| "IsEmpty (OtherGeometry answer) = answer"

text \<open>clone() makes a deep copy; geometries are values here, so the copy is the value.\<close>

definition clone :: "'c OGRPolygon \<Rightarrow> 'c OGRPolygon" where
  "clone polygon = polygon"

text \<open>
  The computational geometry is GEOS's, behind OGR, and is not part of the repository: it is
  a parameter of the model. \<open>Buffer0\<close> is Buffer(0) and \<open>Intersection\<close> is
  mask.Intersection(polygon); both answer NULL (\<open>None\<close>) when GEOS fails. \<open>Centroid\<close> gives
  the X and Y that the OGRPoint holds after Centroid(&centroid), whose error code the
  program ignores.
\<close>

record 'c engine =
  IsValid :: "'c OGRPolygon \<Rightarrow> bool"
  IsSimple :: "'c OGRPolygon \<Rightarrow> bool"
  Buffer0 :: "'c OGRPolygon \<Rightarrow> 'c OGRGeometry option"
  Centroid :: "'c OGRGeometry \<Rightarrow> 'c OGRPoint"
  getEnvelope :: "'c OGRGeometry \<Rightarrow> 'c OGREnvelope"
  Intersection :: "'c OGRPolygon \<Rightarrow> 'c OGRGeometry \<Rightarrow> 'c OGRGeometry option"

section \<open>The splitter\<close>

text \<open>
  What split_polygons changes: the vector of pieces it pushes onto, and the lines it has
  written to std::cerr.
\<close>

record 'c splitter =
  pieces :: "'c OGRPolygon list"
  cerr :: "string list"

text \<open>Calling a method through a NULL pointer ends the program.\<close>

datatype error = NullDereference

text \<open>
  A call either does not return within the recursion depth it is allowed (\<open>None\<close>), or
  ends the program (\<open>Some (Inl err)\<close>), or returns with the state \<open>s\<close> (\<open>Some (Inr s)\<close>).
\<close>

type_synonym 's result = "(error + 's) option"

text \<open>A for loop over \<open>xs\<close>: the body runs on each element in turn, threading the state.\<close>

fun for_each :: "'a list \<Rightarrow> ('s \<Rightarrow> 'a \<Rightarrow> 's result) \<Rightarrow> 's \<Rightarrow> 's result" where
  "for_each [] body s = Some (Inr s)"
| "for_each (x # xs) body s =
     (case body s x of
        None \<Rightarrow> None
      | Some (Inl err) \<Rightarrow> Some (Inl err)
      | Some (Inr s') \<Rightarrow> for_each xs body s')"

definition NULL_warning :: string where
  "NULL_warning = ''WARNING: NULL geometry passed to split_polygons!'' @ [CHR 0x0A]"

text \<open>Lines 86 to 94: the envelope, cut at the centroid, for one quadrant.\<close>

definition quadrant_bbox :: "'c OGREnvelope \<Rightarrow> 'c \<Rightarrow> 'c \<Rightarrow> nat \<Rightarrow> 'c OGREnvelope" where
  "quadrant_bbox envelope cornerX cornerY quadrant =
     (if quadrant = 0 then envelope\<lparr>MaxX := cornerX, MaxY := cornerY\<rparr>
      else if quadrant = 1 then envelope\<lparr>MaxX := cornerX, MinY := cornerY\<rparr>
      else if quadrant = 2 then envelope\<lparr>MinX := cornerX, MaxY := cornerY\<rparr>
      else if quadrant = 3 then envelope\<lparr>MinX := cornerX, MinY := cornerY\<rparr>
      else envelope)"

text \<open>Lines 95 to 101: the closed ring of five points around a box, as a polygon.\<close>

definition mask_ring :: "'c OGREnvelope \<Rightarrow> 'c OGRLinearRing" where
  "mask_ring bbox =
     [(MinX bbox, MinY bbox), (MinX bbox, MaxY bbox), (MaxX bbox, MaxY bbox),
      (MaxX bbox, MinY bbox), (MinX bbox, MinY bbox)]"

definition mask :: "'c OGREnvelope \<Rightarrow> 'c OGRPolygon" where
  "mask bbox = [mask_ring bbox]"

text \<open>
  Lines 71 to 75: an invalid or non-simple polygon is replaced by its zero-distance buffer,
  whatever geometry that is; \<open>None\<close> is the NULL that Buffer answers on failure.
\<close>

definition tidy :: "'c engine \<Rightarrow> 'c OGRPolygon \<Rightarrow> 'c OGRGeometry option" where
  "tidy e polygon =
     (if \<not> IsValid e polygon \<or> \<not> IsSimple e polygon then Buffer0 e polygon
      else Some (Polygon polygon))"

text \<open>
  Lines 77 to 102: the piece of one quadrant, the intersection of the quadrant's mask with
  the polygon. The corner is the polygon's centroid, the envelope the polygon's.
\<close>

definition quadrant_piece :: "'c engine \<Rightarrow> 'c OGRGeometry \<Rightarrow> nat \<Rightarrow> 'c OGRGeometry option" where
  "quadrant_piece e polygon quadrant =
     Intersection e
       (mask (quadrant_bbox (getEnvelope e polygon) (fst (Centroid e polygon))
          (snd (Centroid e polygon)) quadrant))
       polygon"

text \<open>
  split_polygons (lines 31 to 108). \<open>fuel\<close> bounds the depth of the recursion: a call that
  has to recurse with no fuel left does not return (\<open>None\<close>). The code has no such bound;
  what it does is what the model does when the fuel is enough. Freeing the intersections
  and the buffered polygon (lines 104 and 107) leaves no trace on values.
\<close>

fun split_polygons ::
  "'c engine \<Rightarrow> nat \<Rightarrow> 'c splitter \<Rightarrow> 'c OGRGeometry option \<Rightarrow> int \<Rightarrow> 'c splitter result"
where
  "split_polygons e fuel s None max_vertices =
     Some (Inr (s\<lparr>cerr := cerr s @ [NULL_warning]\<rparr>))"
| "split_polygons e fuel s (Some geometry) max_vertices =
     (if IsEmpty geometry then Some (Inr s)
      else case geometry of
        MultiPolygon multi \<Rightarrow>
          (case fuel of
             0 \<Rightarrow> None
           | Suc n \<Rightarrow>
               for_each multi
                 (\<lambda>s' member. split_polygons e n s' (Some (Polygon member)) max_vertices) s)
      | OtherGeometry _ \<Rightarrow> Some (Inr s)
      | Polygon polygon \<Rightarrow>
          (case getExteriorRing polygon of
             None \<Rightarrow> Some (Inl NullDereference)
           | Some ring \<Rightarrow>
               if getNumPoints ring \<le> max_vertices
               then Some (Inr (s\<lparr>pieces := pieces s @ [clone polygon]\<rparr>))
               else
                 (case tidy e polygon of
                    None \<Rightarrow> Some (Inl NullDereference)
                  | Some tidied \<Rightarrow>
                      (case fuel of
                         0 \<Rightarrow> None
                       | Suc n \<Rightarrow>
                           for_each [0, 1, 2, 3]
                             (\<lambda>s' quadrant.
                                split_polygons e n s' (quadrant_piece e tidied quadrant)
                                  max_vertices)
                             s))))"

text \<open>
  The contract \<open>split(geometry, maxVertices)\<close>: main (lines 266 and 274) calls
  split_polygons on an empty vector of pieces.
\<close>

definition fresh :: "'c splitter" where
  "fresh = \<lparr>pieces = [], cerr = []\<rparr>"

definition polysplit ::
  "'c engine \<Rightarrow> nat \<Rightarrow> 'c OGRGeometry option \<Rightarrow> int \<Rightarrow> 'c splitter result" where
  "polysplit e fuel geometry max_vertices = split_polygons e fuel fresh geometry max_vertices"

text \<open>
  \<open>returns e g T ps\<close>: the call \<open>split(g, T)\<close> returns, and \<open>ps\<close> are the pieces it
  returns; \<open>returns_within\<close> says within which depth. \<open>diverges e g T\<close>: the recursion never
  comes back, however deep it may go.
\<close>

definition returns_within ::
  "'c engine \<Rightarrow> nat \<Rightarrow> 'c OGRGeometry option \<Rightarrow> int \<Rightarrow> 'c OGRPolygon list \<Rightarrow> bool" where
  "returns_within e fuel g T ps \<longleftrightarrow> (\<exists>s. polysplit e fuel g T = Some (Inr s) \<and> pieces s = ps)"

definition returns ::
  "'c engine \<Rightarrow> 'c OGRGeometry option \<Rightarrow> int \<Rightarrow> 'c OGRPolygon list \<Rightarrow> bool" where
  "returns e g T ps \<longleftrightarrow> (\<exists>fuel. returns_within e fuel g T ps)"



text \<open>What a call adds to a state, and the transport of a result along a function.\<close>

definition append_splitter :: "'c splitter \<Rightarrow> 'c splitter \<Rightarrow> 'c splitter" where
  "append_splitter s d = \<lparr>pieces = pieces s @ pieces d, cerr = cerr s @ cerr d\<rparr>"

fun map_result :: "('a \<Rightarrow> 'b) \<Rightarrow> 'a result \<Rightarrow> 'b result" where
  "map_result f None = None"
| "map_result f (Some (Inl err)) = Some (Inl err)"
| "map_result f (Some (Inr s)) = Some (Inr (f s))"

text \<open>The exterior ring of a piece has at most \<open>T\<close> points.\<close>

definition fits :: "int \<Rightarrow> 'c OGRPolygon \<Rightarrow> bool" where
  "fits T piece =
     (case getExteriorRing piece of None \<Rightarrow> False | Some ring \<Rightarrow> getNumPoints ring \<le> T)"

text \<open>The rectangle \<open>x0..x1, y0..y1\<close> as the polygon of its closed boundary.\<close>

definition rectangle :: "'c \<Rightarrow> 'c \<Rightarrow> 'c \<Rightarrow> 'c \<Rightarrow> 'c OGRPolygon" where
  "rectangle x0 x1 y0 y1 = [[(x0, y0), (x0, y1), (x1, y1), (x1, y0), (x0, y0)]]"

section \<open>The splitter on a store of objects\<close>

text \<open>
  The vector of pieces holds pointers, and line 67 pushes the pointer to a new object that
  clone() makes. To tell that object from the one it was copied from, split_polygons is
  modelled a second time, on a store: geometries live at addresses, a pointer names an
  object of the store or a member inside a multipolygon of the store (what getGeometryRef
  answers), operator new takes the next address that was never used, and delete removes an
  object. The geometry engine works on the values, as before.
\<close>

type_synonym address = nat

datatype pointer = Object address | Member address nat

record 'c store =
  objects :: "address \<Rightarrow> 'c OGRGeometry option"
  unused :: address

definition address_of :: "pointer \<Rightarrow> address" where
  "address_of p = (case p of Object a \<Rightarrow> a | Member a _ \<Rightarrow> a)"

definition deref :: "'c store \<Rightarrow> pointer \<Rightarrow> 'c OGRGeometry option" where
  "deref h p =
     (case p of
        Object a \<Rightarrow> objects h a
      | Member a i \<Rightarrow>
          (case objects h a of
             Some (MultiPolygon multi) \<Rightarrow>
               if i < length multi then Some (Polygon (multi ! i)) else None
           | _ \<Rightarrow> None))"

definition allocate :: "'c OGRGeometry \<Rightarrow> 'c store \<Rightarrow> 'c store" where
  "allocate g h = \<lparr>objects = (objects h)(unused h := Some g), unused = Suc (unused h)\<rparr>"

definition delete :: "address \<Rightarrow> 'c store \<Rightarrow> 'c store" where
  "delete a h = h\<lparr>objects := (objects h)(a := None)\<rparr>"

definition getGeometryRef :: "pointer \<Rightarrow> nat \<Rightarrow> pointer" where
  "getGeometryRef multi i = Member (address_of multi) i"

text \<open>
  What split_polygons changes, on the store: the vector of pointers to pieces, the store,
  and std::cerr.
\<close>

record 'c memory =
  vector :: "address list"
  heap :: "'c store"
  warnings :: "string list"

text \<open>pieces->push_back((OGRPolygon*) polygon->clone()), line 67.\<close>

definition push_back_clone :: "'c OGRPolygon \<Rightarrow> 'c memory \<Rightarrow> 'c memory" where
  "push_back_clone polygon m =
     m\<lparr>vector := vector m @ [unused (heap m)],
       heap := allocate (Polygon (clone polygon)) (heap m)\<rparr>"

text \<open>delete piece (line 104) and delete polygon (line 107); deleting NULL does nothing.\<close>

definition delete_object :: "address option \<Rightarrow> 'c memory \<Rightarrow> 'c memory" where
  "delete_object a m = (case a of None \<Rightarrow> m | Some b \<Rightarrow> m\<lparr>heap := delete b (heap m)\<rparr>)"

text \<open>
  split_polygons on the store. Where a pointer names no object the program is outside what
  C++ defines; the model ends it like a call through NULL. The buffered polygon (line 73)
  and each intersection (line 102) are new objects, deleted when the recursion on them has
  returned.
\<close>

fun split_polygons_mem ::
  "'c engine \<Rightarrow> nat \<Rightarrow> 'c memory \<Rightarrow> pointer option \<Rightarrow> int \<Rightarrow> 'c memory result"
where
  "split_polygons_mem e fuel m None max_vertices =
     Some (Inr (m\<lparr>warnings := warnings m @ [NULL_warning]\<rparr>))"
| "split_polygons_mem e fuel m (Some p) max_vertices =
     (case deref (heap m) p of
        None \<Rightarrow> Some (Inl NullDereference)
      | Some geometry \<Rightarrow>
          if IsEmpty geometry then Some (Inr m)
          else case geometry of
            MultiPolygon multi \<Rightarrow>
              (case fuel of
                 0 \<Rightarrow> None
               | Suc n \<Rightarrow>
                   for_each [0..<length multi]
                     (\<lambda>m' i. split_polygons_mem e n m' (Some (getGeometryRef p i)) max_vertices)
                     m)
          | OtherGeometry _ \<Rightarrow> Some (Inr m)
          | Polygon polygon \<Rightarrow>
              (case getExteriorRing polygon of
                 None \<Rightarrow> Some (Inl NullDereference)
               | Some ring \<Rightarrow>
                   if getNumPoints ring \<le> max_vertices
                   then Some (Inr (push_back_clone polygon m))
                   else
                     (case tidy e polygon of
                        None \<Rightarrow> Some (Inl NullDereference)
                      | Some tidied \<Rightarrow>
                          (case fuel of
                             0 \<Rightarrow> None
                           | Suc n \<Rightarrow>
                               map_result
                                 (delete_object
                                    (if \<not> IsValid e polygon \<or> \<not> IsSimple e polygon
                                     then Some (unused (heap m)) else None))
                                 (for_each [0, 1, 2, 3]
                                    (\<lambda>m' quadrant.
                                       case quadrant_piece e tidied quadrant of
                                         None \<Rightarrow> split_polygons_mem e n m' None max_vertices
                                       | Some piece \<Rightarrow>
                                           map_result (delete_object (Some (unused (heap m'))))
                                             (split_polygons_mem e n
                                                (m'\<lparr>heap := allocate piece (heap m')\<rparr>)
                                                (Some (Object (unused (heap m'))))
                                                max_vertices))
                                    (if \<not> IsValid e polygon \<or> \<not> IsSimple e polygon
                                     then m\<lparr>heap := allocate tidied (heap m)\<rparr>
                                     else m))))))"

text \<open>The loop body of lines 86 to 104 on the store, for one quadrant.\<close>

definition quadrant_call ::
  "'c engine \<Rightarrow> nat \<Rightarrow> 'c OGRGeometry \<Rightarrow> int \<Rightarrow> 'c memory \<Rightarrow> nat \<Rightarrow> 'c memory result" where
  "quadrant_call e n G T m' quadrant =
     (case quadrant_piece e G quadrant of
        None \<Rightarrow> split_polygons_mem e n m' None T
      | Some piece \<Rightarrow>
          map_result (delete_object (Some (unused (heap m'))))
            (split_polygons_mem e n (m'\<lparr>heap := allocate piece (heap m')\<rparr>)
               (Some (Object (unused (heap m')))) T))"

text \<open>
  The store against the values. \<open>by_value\<close> reads the pieces of a store as values; \<open>target\<close>
  is what a pointer names. A store is \<open>sound\<close> when nothing lives at an address that was
  never allocated and the vector only holds allocated addresses. \<open>grows m m'\<close> says what a
  call may do to a sound store: allocate, leave every older object as it was, and push
  pointers to new objects that are polygons and still live. \<open>simulates m r v\<close>: the result
  \<open>r\<close> of a call on the store \<open>m\<close> is, read by value, the result \<open>v\<close>, and the store has
  only grown.
\<close>

definition polygon_at :: "'c store \<Rightarrow> address \<Rightarrow> 'c OGRPolygon" where
  "polygon_at h a = (case objects h a of Some (Polygon polygon) \<Rightarrow> polygon | _ \<Rightarrow> [])"

definition by_value :: "'c memory \<Rightarrow> 'c splitter" where
  "by_value m = \<lparr>pieces = map (polygon_at (heap m)) (vector m), cerr = warnings m\<rparr>"

definition sound :: "'c memory \<Rightarrow> bool" where
  "sound m \<longleftrightarrow>
     (\<forall>a. unused (heap m) \<le> a \<longrightarrow> objects (heap m) a = None)
     \<and> (\<forall>a \<in> set (vector m). a < unused (heap m))"

definition grows :: "'c memory \<Rightarrow> 'c memory \<Rightarrow> bool" where
  "grows m m' \<longleftrightarrow>
     sound m' \<and> unused (heap m) \<le> unused (heap m')
     \<and> (\<forall>a. a < unused (heap m) \<longrightarrow> objects (heap m') a = objects (heap m) a)
     \<and> (\<exists>new. vector m' = vector m @ new
           \<and> (\<forall>a \<in> set new. unused (heap m) \<le> a
                 \<and> (\<exists>polygon. objects (heap m') a = Some (Polygon polygon))))"

definition target :: "'c memory \<Rightarrow> pointer option \<Rightarrow> 'c OGRGeometry option" where
  "target m p = (case p of None \<Rightarrow> None | Some q \<Rightarrow> deref (heap m) q)"

definition simulates ::
  "'c memory \<Rightarrow> 'c memory result \<Rightarrow> 'c splitter result \<Rightarrow> bool" where
  "simulates m r v \<longleftrightarrow>
     map_result by_value r = v \<and> (\<forall>m'. r = Some (Inr m') \<longrightarrow> grows m m')"

section \<open>The program around the splitter\<close>

text \<open>
  What main (lines 177 to 300) reads and writes is OGR's and the C library's. The command
  line comes as getopt left it: the options it returned, in order, each with its argument,
  and the arguments that remain. The data source is a value of the records below.
\<close>

record 'c OGRFeature =
  GetFID :: int
  GetFieldAsInteger :: "int \<Rightarrow> int"
  GetGeometryRef :: "'c OGRGeometry option"

text \<open>
  A layer of the source: \<open>GetFieldIndex\<close> is negative when the layer has no field of that
  name, \<open>FieldIsInteger i\<close> says that the type of field \<open>i\<close> is OFTInteger, \<open>Features\<close> are
  the features that GetNextFeature yields after ResetReading, in order.
\<close>

record 'c OGRLayer =
  GetFieldIndex :: "string \<Rightarrow> int"
  FieldIsInteger :: "int \<Rightarrow> bool"
  GetFeatureCount :: int
  Features :: "'c OGRFeature list"

record 'c OGRDataSource =
  GetLayerByName :: "string \<Rightarrow> 'c OGRLayer option"
  GetLayer0 :: "'c OGRLayer option"

text \<open>
  The world outside the program: \<open>atoi\<close>, opening the source, and whether each step of
  creating the destination and each write succeeds. \<open>CreateFeature\<close> is asked with the
  features the output layer already holds and the new one.
\<close>

record 'c world =
  atoi :: "string \<Rightarrow> int"
  Open :: "string \<Rightarrow> 'c OGRDataSource option"
  GetDriverByName :: "string \<Rightarrow> bool"
  CreateDataSource :: "string \<Rightarrow> string \<Rightarrow> bool"
  CreateLayer :: "string option \<Rightarrow> bool"
  CreateField :: "string \<Rightarrow> bool"
  DestinationLayer :: "string option \<Rightarrow> bool"
  CreateFeature :: "(int \<times> 'c OGRPolygon) list \<Rightarrow> int \<times> 'c OGRPolygon \<Rightarrow> bool"

text \<open>The variables that the options set (lines 178 to 183 and 29).\<close>

record config =
  src_layer_name :: "string option"
  dest_layer_name :: "string option"
  driver_name :: string
  id_field_name :: "string option"
  max_vertices :: int
  debug :: bool

definition MAXVERTICES :: int where
  "MAXVERTICES = 250"

definition OUTPUTDRIVER :: string where
  "OUTPUTDRIVER = ''ESRI Shapefile''"

definition IDFIELD :: string where
  "IDFIELD = ''id''"

definition defaults :: config where
  "defaults =
     \<lparr>src_layer_name = None, dest_layer_name = None, driver_name = OUTPUTDRIVER,
      id_field_name = None, max_vertices = MAXVERTICES, debug = False\<rparr>"

text \<open>What the program has written: to std::cerr, and to the output layer.\<close>

record 'c program =
  stderr :: "string list"
  written :: "(int \<times> 'c OGRPolygon) list"

text \<open>The program ends by exit(status), or main returns.\<close>

datatype 'c ending = Exit int "'c program" | Return "'c program"

definition NL :: string where
  "NL = [CHR 0x0A]"

definition TAB :: string where
  "TAB = [CHR 0x09]"

definition usage_text :: string where
  "usage_text =
     NL @ ''Usage: polysplit [opts] <input> <output>'' @ NL @ NL
     @ TAB @ ''-i'' @ TAB @ ''input layer name'' @ NL
     @ TAB @ ''-o'' @ TAB @ ''output layer name'' @ NL
     @ TAB @ ''-f'' @ TAB @ ''OGR output driver name'' @ NL
     @ TAB @ ''-n'' @ TAB @ ''ID field name (must be integer type)'' @ NL
     @ TAB @ ''-m'' @ TAB @ ''Max vertices per output polygon'' @ NL
     @ TAB @ ''-v'' @ TAB @ ''Verbose mode'' @ NL @ NL"

text \<open>usage (lines 166 to 175) prints the text and exits with status 1.\<close>

definition usage :: "'c program \<Rightarrow> 'c ending" where
  "usage p = Exit 1 (p\<lparr>stderr := stderr p @ [usage_text]\<rparr>)"

definition say :: "string \<Rightarrow> 'c program \<Rightarrow> 'c program" where
  "say line p = p\<lparr>stderr := stderr p @ [line]\<rparr>"

text \<open>
  The loop over getopt (lines 185 to 195): \<open>None\<close> when an option that is not one of
  i, o, f, n, m, v came back, on which the program calls usage.
\<close>

fun parse_options :: "(string \<Rightarrow> int) \<Rightarrow> (char \<times> string) list \<Rightarrow> config \<Rightarrow> config option" where
  "parse_options to_int [] c = Some c"
| "parse_options to_int ((opt, optarg) # rest) c =
     (if opt = CHR ''i'' then parse_options to_int rest (c\<lparr>src_layer_name := Some optarg\<rparr>)
      else if opt = CHR ''o'' then parse_options to_int rest (c\<lparr>dest_layer_name := Some optarg\<rparr>)
      else if opt = CHR ''f'' then parse_options to_int rest (c\<lparr>driver_name := optarg\<rparr>)
      else if opt = CHR ''n'' then parse_options to_int rest (c\<lparr>id_field_name := Some optarg\<rparr>)
      else if opt = CHR ''m'' then parse_options to_int rest (c\<lparr>max_vertices := to_int optarg\<rparr>)
      else if opt = CHR ''v'' then parse_options to_int rest (c\<lparr>debug := True\<rparr>)
      else None)"

text \<open>
  create_destination (lines 110 to 151): the lines it writes to std::cerr, and whether it
  answers a data source.
\<close>

definition create_destination ::
  "'c world \<Rightarrow> string \<Rightarrow> string \<Rightarrow> string option \<Rightarrow> string option \<Rightarrow> string list \<times> bool" where
  "create_destination w drivername filename layername id_field =
     (if \<not> GetDriverByName w drivername
      then ([drivername @ '' driver not available.'' @ NL], False)
      else if \<not> CreateDataSource w drivername filename
      then ([''Creation of output file '' @ filename @ '' failed.'' @ NL], False)
      else if \<not> CreateLayer w layername
      then ([''Layer creation failed.'' @ NL], False)
      else if \<not> CreateField w (case id_field of None \<Rightarrow> IDFIELD | Some name \<Rightarrow> name)
      then ([''Creating '' @ (case id_field of None \<Rightarrow> IDFIELD | Some name \<Rightarrow> name)
               @ '' field failed.'' @ NL], False)
      else ([], True))"

text \<open>Decimal digits, as operator << prints an int.\<close>

fun digits :: "nat \<Rightarrow> string" where
  "digits n =
     (if n < 10 then [char_of (48 + n)] else digits (n div 10) @ [char_of (48 + n mod 10)])"

definition show_int :: "int \<Rightarrow> string" where
  "show_int i = (if i < 0 then ''-'' @ digits (nat (- i)) else digits (nat i))"

text \<open>
  feature_id_t and the counters of main are int, 32 bits wide, while GetFID and
  GetFeatureCount answer 64-bit integers: storing one in an int keeps its low 32 bits, read
  as a signed number.
\<close>

definition to_int32 :: "int \<Rightarrow> int" where
  "to_int32 i = signed_take_bit 31 i"

text \<open>
  write_feature (lines 153 to 164), once for each piece (lines 275 to 280). \<open>Inl\<close> is the
  program as exit(1) leaves it; \<open>Inr\<close> carries on, with the count of features written.
\<close>

fun write_features ::
  "'c world \<Rightarrow> int \<Rightarrow> 'c OGRPolygon list \<Rightarrow> 'c program \<times> int \<Rightarrow> 'c program + 'c program \<times> int"
where
  "write_features w ident [] (p, features_written) = Inr (p, features_written)"
| "write_features w ident (geom # rest) (p, features_written) =
     (if \<not> CreateFeature w (written p) (ident, geom)
      then Inl (say (''Failed to create feature in output.'' @ NL) p)
      else write_features w ident rest
             (p\<lparr>written := written p @ [(ident, geom)]\<rparr>, features_written + 1))"

text \<open>
  The main loop (lines 263 to 287) over the features that remain. A destination layer that
  was not found is a NULL pointer, first used when a piece is written.
\<close>

fun process_features ::
  "'c engine \<Rightarrow> 'c world \<Rightarrow> nat \<Rightarrow> config \<Rightarrow> int \<Rightarrow> bool \<Rightarrow> int \<Rightarrow> 'c OGRFeature list \<Rightarrow>
   'c program \<times> int \<times> int \<Rightarrow> 'c ending result"
where
  "process_features e w fuel c id_field destLayer total_n [] (p, features_read, features_written) =
     Some (Inr (Return (say (show_int features_read @ '' features read, ''
                             @ show_int features_written @ '' written.'' @ NL) p)))"
| "process_features e w fuel c id_field destLayer total_n (feature # rest)
       (p, features_read, features_written) =
     (case split_polygons e fuel \<lparr>pieces = [], cerr = stderr p\<rparr> (GetGeometryRef feature)
             (max_vertices c) of
        None \<Rightarrow> None
      | Some (Inl err) \<Rightarrow> Some (Inl err)
      | Some (Inr s) \<Rightarrow>
          if pieces s \<noteq> [] \<and> \<not> destLayer then Some (Inl NullDereference)
          else
            (case write_features w
                    (if 0 \<le> id_field then GetFieldAsInteger feature id_field
                     else to_int32 (GetFID feature))
                    (pieces s) (p\<lparr>stderr := cerr s\<rparr>, features_written) of
               Inl p' \<Rightarrow> Some (Inr (Exit 1 p'))
             | Inr (p', features_written') \<Rightarrow>
                 process_features e w fuel c id_field destLayer total_n rest
                   (if debug c
                    then say (show_int (features_read + 1) @ '' / '' @ show_int total_n
                              @ [CHR 0x0D]) p'
                    else p',
                    features_read + 1, features_written')))"

text \<open>
  main from line 200 on, with the options parsed and checked: \<open>args\<close> are the arguments
  that remain after the options.
\<close>

definition run ::
  "'c engine \<Rightarrow> 'c world \<Rightarrow> nat \<Rightarrow> config \<Rightarrow> string list \<Rightarrow> 'c program \<Rightarrow> 'c ending result" where
  "run e w fuel c args p =
     (case Open w (args ! 0) of
        None \<Rightarrow> Some (Inr (Exit 1 (say (''Opening '' @ args ! 0 @ '' failed.'' @ NL) p)))
      | Some source \<Rightarrow>
     (case (case src_layer_name c of
              Some name \<Rightarrow> GetLayerByName source name
            | None \<Rightarrow> GetLayer0 source) of
        None \<Rightarrow> Some (Inr (Exit 1 (say (''Can't find input layer.'' @ NL) p)))
      | Some srcLayer \<Rightarrow>
     (case id_field_name c of
        Some name \<Rightarrow>
          if GetFieldIndex srcLayer name < 0
          then Some (Inr (Exit 1 (say (''Can't find ID field '' @ name @ ''.'' @ NL) p)))
          else if \<not> FieldIsInteger srcLayer (GetFieldIndex srcLayer name)
          then Some (Inr (Exit 1 (say (''ID field '' @ name @ '' isn't integer type!'' @ NL) p)))
          else
            (case create_destination w (driver_name c) (args ! 1) (dest_layer_name c)
                    (id_field_name c) of
               (lines, False) \<Rightarrow> Some (Inr (Exit 1 (p\<lparr>stderr := stderr p @ lines\<rparr>)))
             | (lines, True) \<Rightarrow>
                 process_features e w fuel c (GetFieldIndex srcLayer name)
                   (DestinationLayer w (dest_layer_name c)) (to_int32 (GetFeatureCount srcLayer))
                   (Features srcLayer) (p\<lparr>stderr := stderr p @ lines\<rparr>, 0, 0))
      | None \<Rightarrow>
          (case create_destination w (driver_name c) (args ! 1) (dest_layer_name c)
                  (id_field_name c) of
             (lines, False) \<Rightarrow> Some (Inr (Exit 1 (p\<lparr>stderr := stderr p @ lines\<rparr>)))
           | (lines, True) \<Rightarrow>
               process_features e w fuel c (- 1)
                 (DestinationLayer w (dest_layer_name c)) (to_int32 (GetFeatureCount srcLayer))
                 (Features srcLayer) (p\<lparr>stderr := stderr p @ lines\<rparr>, 0, 0)))))"

text \<open>
  main (lines 177 to 300): \<open>opts\<close> are the options getopt returned, \<open>args\<close> the arguments
  that remain (their number is argc after line 196). Line 199 sends every run with fewer
  than two arguments, or with a threshold of 5 or less, to usage.
\<close>

definition main ::
  "'c engine \<Rightarrow> 'c world \<Rightarrow> nat \<Rightarrow> (char \<times> string) list \<Rightarrow> string list \<Rightarrow> 'c ending result" where
  "main e w fuel opts args =
     (case parse_options (atoi w) opts defaults of
        None \<Rightarrow> Some (Inr (usage \<lparr>stderr = [], written = []\<rparr>))
      | Some c \<Rightarrow>
          if int (length args) < 2 \<or> max_vertices c \<le> 5
          then Some (Inr (usage \<lparr>stderr = [], written = []\<rparr>))
          else run e w fuel c args \<lparr>stderr = [], written = []\<rparr>)"

section \<open>An engine that is exact on rectangles and on L-shaped polygons\<close>

text \<open>
  An instance of the engine, over rational coordinates, for axis-parallel rectangles from
  which at most a rectangle at the upper right corner is cut away (an L). \<open>L_ring\<close> is the
  ring of such a polygon: the rectangle \<open>x0..x1, y0..y1\<close> without the points right of \<open>k\<close>
  and above \<open>k'\<close>; the reflex corner \<open>(k, k')\<close> is the fourth point of the ring.
\<close>

definition L_ring :: "rat \<Rightarrow> rat \<Rightarrow> rat \<Rightarrow> rat \<Rightarrow> rat \<Rightarrow> rat \<Rightarrow> rat OGRLinearRing" where
  "L_ring x0 x1 y0 y1 k k' =
     [(x0, y0), (x0, y1), (k, y1), (k, k'), (x1, k'), (x1, y0), (x0, y0)]"

definition ring_envelope :: "rat OGRLinearRing \<Rightarrow> rat OGREnvelope" where
  "ring_envelope ring =
     (case ring of
        [] \<Rightarrow> \<lparr>MinX = 0, MaxX = 0, MinY = 0, MaxY = 0\<rparr>
      | p # ps \<Rightarrow>
          \<lparr>MinX = foldr min (map fst ps) (fst p), MaxX = foldr max (map fst ps) (fst p),
           MinY = foldr min (map snd ps) (snd p), MaxY = foldr max (map snd ps) (snd p)\<rparr>)"

text \<open>
  The engine reads a polygon by its exterior ring: the envelope of the ring, and the reflex
  corner when the ring is an L ring. For any other ring the corner is the upper right
  corner of the envelope: nothing is cut away.
\<close>

definition ring_corner :: "rat OGRLinearRing \<Rightarrow> rat OGRPoint" where
  "ring_corner ring =
     (let b = ring_envelope ring
      in if length ring = 7
            \<and> ring = L_ring (MinX b) (MaxX b) (MinY b) (MaxY b) (fst (ring ! 3)) (snd (ring ! 3))
            \<and> MinX b < fst (ring ! 3) \<and> fst (ring ! 3) < MaxX b
            \<and> MinY b < snd (ring ! 3) \<and> snd (ring ! 3) < MaxY b
         then ring ! 3 else (MaxX b, MaxY b))"

definition notch_envelope :: "rat OGRGeometry \<Rightarrow> rat OGREnvelope" where
  "notch_envelope g =
     (case g of
        Polygon (ring # _) \<Rightarrow> ring_envelope ring
      | _ \<Rightarrow> \<lparr>MinX = 0, MaxX = 0, MinY = 0, MaxY = 0\<rparr>)"

definition notch_corner :: "rat OGRGeometry \<Rightarrow> rat OGRPoint" where
  "notch_corner g = (case g of Polygon (ring # _) \<Rightarrow> ring_corner ring | _ \<Rightarrow> (0, 0))"

text \<open>
  The centre of mass: the first moments of the rectangle less those of the part cut away,
  over the area that is left.
\<close>

definition notch_Centroid :: "rat OGRGeometry \<Rightarrow> rat OGRPoint" where
  "notch_Centroid g =
     (let b = notch_envelope g; k = fst (notch_corner g); k' = snd (notch_corner g);
          whole = (MaxX b - MinX b) * (MaxY b - MinY b);
          cut = (MaxX b - k) * (MaxY b - k')
      in ((whole * ((MinX b + MaxX b) / 2) - cut * ((k + MaxX b) / 2)) / (whole - cut),
          (whole * ((MinY b + MaxY b) / 2) - cut * ((k' + MaxY b) / 2)) / (whole - cut)))"

text \<open>
  The intersection of a rectangular mask \<open>m\<close> with \<open>g\<close>. The two envelopes meet in
  \<open>X0..X1, Y0..Y1\<close>; what is right of and above the corner of \<open>g\<close> is taken out. The result
  is a rectangle, an L, the empty polygon, or no polygon at all: a segment or a point, or a
  rectangle together with a segment of the cut (a geometry collection).
\<close>

definition notch_Intersection ::
  "rat OGRPolygon \<Rightarrow> rat OGRGeometry \<Rightarrow> rat OGRGeometry option" where
  "notch_Intersection m g =
     (let a = notch_envelope (Polygon m); b = notch_envelope g;
          X0 = max (MinX a) (MinX b); X1 = min (MaxX a) (MaxX b);
          Y0 = max (MinY a) (MinY b); Y1 = min (MaxY a) (MaxY b);
          k = fst (notch_corner g); k' = snd (notch_corner g)
      in if polygon_IsEmpty m \<or> IsEmpty g \<or> X1 < X0 \<or> Y1 < Y0 then Some (Polygon [])
         else if X0 = X1 \<or> Y0 = Y1
         then (if k < X0 \<and> k' < Y0 then Some (Polygon []) else Some (OtherGeometry False))
         else if X1 \<le> k \<or> Y1 \<le> k' then Some (Polygon (rectangle X0 X1 Y0 Y1))
         else if X0 < k \<and> Y0 < k' then Some (Polygon [L_ring X0 X1 Y0 Y1 k k'])
         else if k < X0 \<and> Y0 < k' then Some (Polygon (rectangle X0 X1 Y0 k'))
         else if X0 < k \<and> k' < Y0 then Some (Polygon (rectangle X0 k Y0 Y1))
         else if k < X0 \<and> k' < Y0 then Some (Polygon [])
         else Some (OtherGeometry False))"

definition notch_engine :: "rat engine" where
  "notch_engine =
     \<lparr>IsValid = (\<lambda>_. True), IsSimple = (\<lambda>_. True), Buffer0 = (\<lambda>P. Some (Polygon P)),
      Centroid = notch_Centroid, getEnvelope = notch_envelope,
      Intersection = notch_Intersection\<rparr>"

text \<open>
  The square \<open>0..2, 0..2\<close> with the midpoint of its upper side as a sixth point of the ring,
  the square \<open>0..10, 0..10\<close>, and the L that is left of the square \<open>a..b, a..b\<close> when the
  square \<open>1..b, 1..b\<close> is cut away.
\<close>

definition square6 :: "rat OGRPolygon" where
  "square6 = [[(0, 0), (0, 2), (1, 2), (2, 2), (2, 0), (0, 0)]]"

definition square10 :: "rat OGRPolygon" where
  "square10 = rectangle 0 10 0 10"


text \<open>The store that holds the square \<open>0..10, 0..10\<close> at address 0 and nothing else.\<close>

definition store10 :: "rat memory" where
  "store10 =
     \<lparr>vector = [],
      heap = \<lparr>objects = (\<lambda>a. if a = 0 then Some (Polygon square10) else None), unused = 1\<rparr>,
      warnings = []\<rparr>"



text \<open>The same engine, but one that finds every polygon invalid and buffers it to itself.\<close>

definition wary_engine :: "rat engine" where
  "wary_engine = notch_engine\<lparr>IsValid := (\<lambda>_. False)\<rparr>"

text \<open>A world in which atoi reads the digit 4 and nothing can be opened or created.\<close>

definition closed_world :: "rat world" where
  "closed_world =
     \<lparr>atoi = (\<lambda>s. if s = ''4'' then 4 else 0), Open = (\<lambda>_. None),
      GetDriverByName = (\<lambda>_. False), CreateDataSource = (\<lambda>_ _. False),
      CreateLayer = (\<lambda>_. False), CreateField = (\<lambda>_. False),
      DestinationLayer = (\<lambda>_. False), CreateFeature = (\<lambda>_ _. False)\<rparr>"

section \<open>How split_polygons computes\<close>

text \<open>The cases of split_polygons, one equation each.\<close>

lemma exterior_of_nonempty:
  "\<not> polygon_IsEmpty P \<Longrightarrow> \<exists>ring. getExteriorRing P = Some ring"
  by (cases P) (simp_all add: polygon_IsEmpty_def getExteriorRing_def)

lemma split_NULL:
  "split_polygons e fuel s None T = Some (Inr (s\<lparr>cerr := cerr s @ [NULL_warning]\<rparr>))"
  by simp

lemma split_empty: "IsEmpty g \<Longrightarrow> split_polygons e fuel s (Some g) T = Some (Inr s)"
  by simp

lemma split_other: "split_polygons e fuel s (Some (OtherGeometry b)) T = Some (Inr s)"
  by simp

lemma split_multi_0:
  "\<not> IsEmpty (MultiPolygon ms) \<Longrightarrow> split_polygons e 0 s (Some (MultiPolygon ms)) T = None"
  by simp

lemma split_multi_Suc:
  "\<not> IsEmpty (MultiPolygon ms) \<Longrightarrow>
   split_polygons e (Suc n) s (Some (MultiPolygon ms)) T =
   for_each ms (\<lambda>s' member. split_polygons e n s' (Some (Polygon member)) T) s"
  by simp

lemma split_small:
  "\<not> polygon_IsEmpty P \<Longrightarrow> getExteriorRing P = Some ring \<Longrightarrow> getNumPoints ring \<le> T \<Longrightarrow>
   split_polygons e fuel s (Some (Polygon P)) T = Some (Inr (s\<lparr>pieces := pieces s @ [P]\<rparr>))"
  by (simp add: clone_def)

lemma split_big_NULL:
  "\<not> polygon_IsEmpty P \<Longrightarrow> getExteriorRing P = Some ring \<Longrightarrow> T < getNumPoints ring \<Longrightarrow>
   tidy e P = None \<Longrightarrow>
   split_polygons e fuel s (Some (Polygon P)) T = Some (Inl NullDereference)"
  by simp

lemma split_big_0:
  "\<not> polygon_IsEmpty P \<Longrightarrow> getExteriorRing P = Some ring \<Longrightarrow> T < getNumPoints ring \<Longrightarrow>
   tidy e P = Some G \<Longrightarrow>
   split_polygons e 0 s (Some (Polygon P)) T = None"
  by simp

lemma split_big_Suc:
  "\<not> polygon_IsEmpty P \<Longrightarrow> getExteriorRing P = Some ring \<Longrightarrow> T < getNumPoints ring \<Longrightarrow>
   tidy e P = Some G \<Longrightarrow>
   split_polygons e (Suc n) s (Some (Polygon P)) T =
   for_each [0, 1, 2, 3] (\<lambda>s' quadrant. split_polygons e n s' (quadrant_piece e G quadrant) T) s"
  by simp

lemma geometry_cases [case_names null empty other multi small failed big]:
  fixes g :: "'c OGRGeometry option" and e :: "'c engine" and T :: int
  obtains "g = None"
  | x where "g = Some x" "IsEmpty x"
  | b where "g = Some (OtherGeometry b)" "\<not> b"
  | ms where "g = Some (MultiPolygon ms)" "\<not> IsEmpty (MultiPolygon ms)"
  | P ring where "g = Some (Polygon P)" "\<not> polygon_IsEmpty P" "getExteriorRing P = Some ring"
      "getNumPoints ring \<le> T"
  | P ring where "g = Some (Polygon P)" "\<not> polygon_IsEmpty P" "getExteriorRing P = Some ring"
      "T < getNumPoints ring" "tidy e P = None"
  | P ring G where "g = Some (Polygon P)" "\<not> polygon_IsEmpty P" "getExteriorRing P = Some ring"
      "T < getNumPoints ring" "tidy e P = Some G"
proof (cases g)
  case None
  then show ?thesis using that(1) by simp
next
  case (Some x)
  show ?thesis
  proof (cases "IsEmpty x")
    case True
    then show ?thesis using Some that(2) by simp
  next
    case False
    show ?thesis
    proof (cases x)
      case (Polygon P)
      then have ne: "\<not> polygon_IsEmpty P" using False by simp
      then obtain ring where r: "getExteriorRing P = Some ring"
        using exterior_of_nonempty by blast
      show ?thesis
      proof (cases "getNumPoints ring \<le> T")
        case True
        then show ?thesis using that(5) Some Polygon ne r by simp
      next
        case big: False
        show ?thesis
        proof (cases "tidy e P")
          case None
          then show ?thesis using that(6) Some Polygon ne r big by simp
        next
          case (Some G)
          then show ?thesis using that(7) \<open>g = Some x\<close> Polygon ne r big by simp
        qed
      qed
    next
      case (MultiPolygon ms)
      then show ?thesis using that(4) Some False by simp
    next
      case (OtherGeometry b)
      then show ?thesis using that(3) Some False by simp
    qed
  qed
qed

declare split_polygons.simps [simp del]

text \<open>
  A call does to any state what it does to the empty one: it appends its pieces and its
  warnings.
\<close>

lemma append_splitter_fresh [simp]: "append_splitter s fresh = s" "append_splitter fresh s = s"
  by (simp_all add: append_splitter_def fresh_def)

lemma append_splitter_assoc:
  "append_splitter (append_splitter a b) c = append_splitter a (append_splitter b c)"
  by (simp add: append_splitter_def)

lemma map_result_cases:
  obtains "r = None" | err where "r = Some (Inl err)" | s where "r = Some (Inr s)"
proof (cases r)
  case None
  then show ?thesis using that(1) by simp
next
  case (Some v)
  then show ?thesis using that(2,3) by (cases v) simp_all
qed

lemma for_each_frame:
  assumes "\<And>s x. body s x = map_result (append_splitter s) (body fresh x)"
  shows "for_each xs body s = map_result (append_splitter s) (for_each xs body fresh)"
proof (induction xs arbitrary: s)
  case Nil
  show ?case by simp
next
  case (Cons x xs)
  have hd: "body s x = map_result (append_splitter s) (body fresh x)"
    by (rule assms)
  show ?case
  proof (cases rule: map_result_cases [of "body fresh x"])
    case 1
    then show ?thesis by (simp add: hd)
  next
    case (2 err)
    then show ?thesis by (simp add: hd)
  next
    case (3 d)
    have a: "for_each xs body (append_splitter s d) =
        map_result (append_splitter (append_splitter s d)) (for_each xs body fresh)"
      by (rule Cons.IH)
    have b: "for_each xs body d = map_result (append_splitter d) (for_each xs body fresh)"
      by (rule Cons.IH)
    show ?thesis
      by (cases rule: map_result_cases [of "for_each xs body fresh"])
        (simp_all add: hd 3 a b append_splitter_assoc)
  qed
qed

lemma split_polygons_frame:
  "split_polygons e fuel s g T = map_result (append_splitter s) (polysplit e fuel g T)"
proof (induction fuel arbitrary: s g)
  case 0
  show ?case
  proof (cases rule: geometry_cases [where g = g and e = e and T = T])
    case null
    then show ?thesis by (simp add: polysplit_def split_NULL append_splitter_def fresh_def)
  next
    case (empty x)
    then show ?thesis by (simp add: polysplit_def split_empty)
  next
    case (other b)
    then show ?thesis by (simp add: polysplit_def split_other)
  next
    case (multi ms)
    then show ?thesis by (simp add: polysplit_def split_multi_0)
  next
    case (small P ring)
    then show ?thesis by (simp add: polysplit_def split_small [OF small(2-4)] append_splitter_def fresh_def)
  next
    case (failed P ring)
    then show ?thesis by (simp add: polysplit_def split_big_NULL [OF failed(2-5)])
  next
    case (big P ring G)
    then show ?thesis by (simp add: polysplit_def split_big_0 [OF big(2-5)])
  qed
next
  case (Suc n)
  have body: "split_polygons e n s' g' T =
      map_result (append_splitter s') (split_polygons e n fresh g' T)" for g' s'
    by (rule Suc.IH [unfolded polysplit_def])
  show ?case
  proof (cases rule: geometry_cases [where g = g and e = e and T = T])
    case null
    then show ?thesis by (simp add: polysplit_def split_NULL append_splitter_def fresh_def)
  next
    case (empty x)
    then show ?thesis by (simp add: polysplit_def split_empty)
  next
    case (other b)
    then show ?thesis by (simp add: polysplit_def split_other)
  next
    case (small P ring)
    then show ?thesis by (simp add: polysplit_def split_small [OF small(2-4)] append_splitter_def fresh_def)
  next
    case (failed P ring)
    then show ?thesis by (simp add: polysplit_def split_big_NULL [OF failed(2-5)])
  next
    case (multi ms)
    have "for_each ms (\<lambda>s' member. split_polygons e n s' (Some (Polygon member)) T) s =
        map_result (append_splitter s)
          (for_each ms (\<lambda>s' member. split_polygons e n s' (Some (Polygon member)) T) fresh)"
      by (rule for_each_frame) (rule body)
    then show ?thesis using multi(1) by (simp only: polysplit_def split_multi_Suc [OF multi(2)])
  next
    case (big P ring G)
    have "for_each [0, 1, 2, 3]
          (\<lambda>s' quadrant. split_polygons e n s' (quadrant_piece e G quadrant) T) s =
        map_result (append_splitter s)
          (for_each [0, 1, 2, 3]
            (\<lambda>s' quadrant. split_polygons e n s' (quadrant_piece e G quadrant) T) fresh)"
      by (rule for_each_frame) (rule body)
    then show ?thesis using big(1) by (simp only: polysplit_def split_big_Suc [OF big(2-5)])
  qed
qed

lemma for_each_mono:
  assumes "\<And>s x r. x \<in> set xs \<Longrightarrow> f s x = Some r \<Longrightarrow> g s x = Some r"
    and "for_each xs f s = Some r"
  shows "for_each xs g s = Some r"
  using assms
proof (induction xs arbitrary: s)
  case Nil
  then show ?case by simp
next
  case (Cons x xs)
  then show ?case
    by (cases "f s x") (auto split: sum.splits)
qed

lemma split_polygons_Suc_fuel:
  "split_polygons e n s g T = Some r \<Longrightarrow> split_polygons e (Suc n) s g T = Some r"
proof (induction n arbitrary: s g r)
  case 0
  then show ?case
    by (cases rule: geometry_cases [where g = g and e = e and T = T])
      (simp_all add: split_NULL split_empty split_other split_multi_0 split_small
        split_big_NULL split_big_0)
next
  case (Suc n)
  show ?case
  proof (cases rule: geometry_cases [where g = g and e = e and T = T])
    case (multi ms)
    have "for_each ms (\<lambda>s' member. split_polygons e n s' (Some (Polygon member)) T) s = Some r"
      using Suc.prems multi(1) by (simp only: split_multi_Suc [OF multi(2)])
    then have "for_each ms (\<lambda>s' member. split_polygons e (Suc n) s' (Some (Polygon member)) T) s
        = Some r"
      by (rule for_each_mono [rotated]) (rule Suc.IH)
    then show ?thesis using multi(1) by (simp only: split_multi_Suc [OF multi(2)])
  next
    case (big P ring G)
    have "for_each [0, 1, 2, 3]
        (\<lambda>s' quadrant. split_polygons e n s' (quadrant_piece e G quadrant) T) s = Some r"
      using Suc.prems big(1) by (simp only: split_big_Suc [OF big(2-5)])
    then have "for_each [0, 1, 2, 3]
        (\<lambda>s' quadrant. split_polygons e (Suc n) s' (quadrant_piece e G quadrant) T) s = Some r"
      by (rule for_each_mono [rotated]) (rule Suc.IH)
    then show ?thesis using big(1) by (simp only: split_big_Suc [OF big(2-5)])
  qed (use Suc.prems in \<open>simp_all add: split_NULL split_empty split_other split_small
        split_big_NULL\<close>)
qed

lemma split_polygons_more_fuel:
  "split_polygons e n s g T = Some r \<Longrightarrow> n \<le> m \<Longrightarrow> split_polygons e m s g T = Some r"
  by (induction m) (auto simp: le_Suc_eq split_polygons_Suc_fuel)


lemma split_polygons_extends:
  assumes "split_polygons e fuel s g T = Some (Inr s')"
  obtains d where "polysplit e fuel g T = Some (Inr d)" and "s' = append_splitter s d"
proof (cases "polysplit e fuel g T")
  case None
  then show ?thesis using assms split_polygons_frame [of e fuel s g T] by simp
next
  case (Some r)
  then show ?thesis using assms split_polygons_frame [of e fuel s g T] that
    by (cases r) simp_all
qed

lemma for_each_invariant:
  assumes "\<And>s x s'. x \<in> set xs \<Longrightarrow> I s \<Longrightarrow> body s x = Some (Inr s') \<Longrightarrow> I s'"
    and "I s" and "for_each xs body s = Some (Inr s')"
  shows "I s'"
  using assms
proof (induction xs arbitrary: s)
  case Nil
  then show ?case by simp
next
  case (Cons x xs)
  from Cons.prems(3) obtain s1 where 1: "body s x = Some (Inr s1)"
    and 2: "for_each xs body s1 = Some (Inr s')"
    by (auto split: option.splits sum.splits)
  have "I s1" using Cons.prems(1) [of x s s1] Cons.prems(2) 1 by simp
  then show ?case
    by (rule Cons.IH [rotated]) (use Cons.prems(1) 2 in auto)
qed

lemma split_polygons_fits:
  "split_polygons e fuel s g T = Some (Inr s') \<Longrightarrow> list_all (fits T) (pieces s) \<Longrightarrow>
   list_all (fits T) (pieces s')"
proof (induction fuel arbitrary: s g s')
  case 0
  then show ?case
  proof (cases rule: geometry_cases [where g = g and e = e and T = T])
    case (small P ring)
    then show ?thesis using 0 by (auto simp: split_small [OF small(2-4)] fits_def)
  qed (auto simp: split_NULL split_empty split_other split_multi_0 split_big_NULL split_big_0)
next
  case (Suc n)
  show ?case
  proof (cases rule: geometry_cases [where g = g and e = e and T = T])
    case (small P ring)
    then show ?thesis using Suc.prems by (auto simp: split_small [OF small(2-4)] fits_def)
  next
    case (multi ms)
    have "for_each ms (\<lambda>s' member. split_polygons e n s' (Some (Polygon member)) T) s
        = Some (Inr s')"
      using Suc.prems(1) multi(1) by (simp only: split_multi_Suc [OF multi(2)])
    then show ?thesis
      by (rule for_each_invariant [rotated 2]) (use Suc.IH Suc.prems(2) in auto)
  next
    case (big P ring G)
    have "for_each [0, 1, 2, 3]
        (\<lambda>s' quadrant. split_polygons e n s' (quadrant_piece e G quadrant) T) s = Some (Inr s')"
      using Suc.prems(1) big(1) by (simp only: split_big_Suc [OF big(2-5)])
    then show ?thesis
      by (rule for_each_invariant [rotated 2]) (use Suc.IH Suc.prems(2) in auto)
  qed (use Suc.prems in \<open>auto simp: split_NULL split_empty split_other split_big_NULL\<close>)
qed


section \<open>A run on the engine for rectangles\<close>

text \<open>
  With threshold 5 the six-point square is cut once, into the four unit squares; each has
  five points and is a piece.
\<close>

lemma square6_run:
  "split_polygons notch_engine 1 \<lparr>pieces = qs, cerr = ws\<rparr> (Some (Polygon square6)) 5 =
   Some (Inr \<lparr>pieces = qs @ [rectangle 0 1 0 1, rectangle 0 1 1 2, rectangle 1 2 0 1,
                               rectangle 1 2 1 2],
               cerr = ws\<rparr>)"
  by (simp add: split_polygons.simps square6_def notch_engine_def
      polygon_IsEmpty_def getExteriorRing_def getNumPoints_def tidy_def quadrant_piece_def
      notch_Intersection_def notch_envelope_def ring_envelope_def notch_Centroid_def
      notch_corner_def ring_corner_def L_ring_def mask_def
      mask_ring_def quadrant_bbox_def rectangle_def clone_def Let_def)

lemma square6_returns:
  "returns notch_engine (Some (Polygon square6)) 5
     [rectangle 0 1 0 1, rectangle 0 1 1 2, rectangle 1 2 0 1, rectangle 1 2 1 2]"
  unfolding returns_def returns_within_def polysplit_def fresh_def
  by (rule exI [of _ 1], rule exI, rule conjI, rule square6_run [of "[]" "[]"]) simp

section \<open>What a call returns\<close>

text \<open>
  The pieces a call returns do not depend on the depth allowed, once it is enough, and a
  loop of calls returns the pieces of its calls, in order.
\<close>

lemma returns_withinI:
  "polysplit e n g T = Some (Inr s) \<Longrightarrow> returns_within e n g T (pieces s)"
  by (auto simp: returns_within_def)

lemma returns_within_more_fuel:
  "returns_within e n g T ps \<Longrightarrow> n \<le> m \<Longrightarrow> returns_within e m g T ps"
  unfolding returns_within_def polysplit_def
  by (blast intro: split_polygons_more_fuel)

lemma returns_within_unique:
  assumes "returns_within e n g T ps" and "returns_within e m g T qs"
  shows "ps = qs"
proof -
  have "returns_within e (max n m) g T ps" "returns_within e (max n m) g T qs"
    using assms by (auto intro: returns_within_more_fuel)
  then show ?thesis by (auto simp: returns_within_def)
qed

lemma returns_unique: "returns e g T ps \<Longrightarrow> returns e g T qs \<Longrightarrow> ps = qs"
  unfolding returns_def by (blast intro: returns_within_unique)

lemma split_polygons_returns:
  "split_polygons e n s g T = Some (Inr s') \<longleftrightarrow>
   (\<exists>d. polysplit e n g T = Some (Inr d) \<and> s' = append_splitter s d)"
  using split_polygons_frame [of e n s g T]
  by (cases rule: map_result_cases [of "polysplit e n g T"]) auto

lemma for_each_pieces:
  assumes "for_each xs (\<lambda>s' x. split_polygons e n s' (G x) T) s0 = Some (Inr s)"
  shows "\<exists>pss. list_all2 (\<lambda>x qs. returns_within e n (G x) T qs) xs pss
    \<and> pieces s = pieces s0 @ concat pss"
  using assms
proof (induction xs arbitrary: s0)
  case Nil
  then show ?case by simp
next
  case (Cons x xs)
  from Cons.prems obtain s1 where 1: "split_polygons e n s0 (G x) T = Some (Inr s1)"
    and 2: "for_each xs (\<lambda>s' x. split_polygons e n s' (G x) T) s1 = Some (Inr s)"
    by (auto split: option.splits sum.splits)
  from 1 obtain d where d: "polysplit e n (G x) T = Some (Inr d)" "s1 = append_splitter s0 d"
    by (auto simp: split_polygons_returns)
  from Cons.IH [OF 2] obtain pss
    where pss: "list_all2 (\<lambda>x qs. returns_within e n (G x) T qs) xs pss"
      "pieces s = pieces s1 @ concat pss"
    by blast
  have "list_all2 (\<lambda>x qs. returns_within e n (G x) T qs) (x # xs) (pieces d # pss)"
    using pss(1) d(1) by (simp add: returns_withinI)
  moreover have "pieces s = pieces s0 @ concat (pieces d # pss)"
    using pss(2) d(2) by (simp add: append_splitter_def)
  ultimately show ?case by blast
qed

lemma pieces_for_each:
  assumes "list_all2 (\<lambda>x qs. returns_within e n (G x) T qs) xs pss"
  shows "\<exists>s. for_each xs (\<lambda>s' x. split_polygons e n s' (G x) T) s0 = Some (Inr s)
    \<and> pieces s = pieces s0 @ concat pss"
  using assms
proof (induction xs pss arbitrary: s0 rule: list_all2_induct)
  case Nil
  then show ?case by simp
next
  case (Cons x xs qs pss)
  from Cons.hyps(1) obtain d where d: "polysplit e n (G x) T = Some (Inr d)" "pieces d = qs"
    by (auto simp: returns_within_def)
  have 1: "split_polygons e n s0 (G x) T = Some (Inr (append_splitter s0 d))"
    using d(1) by (simp add: split_polygons_returns)
  from Cons.IH [of "append_splitter s0 d"] obtain s
    where "for_each xs (\<lambda>s' x. split_polygons e n s' (G x) T) (append_splitter s0 d) = Some (Inr s)"
      "pieces s = pieces (append_splitter s0 d) @ concat pss"
    by blast
  then show ?case using 1 d(2) by (simp add: append_splitter_def)
qed

lemma returns_common_fuel:
  assumes "list_all2 (\<lambda>x qs. returns e (G x) T qs) xs pss"
  shows "\<exists>n. list_all2 (\<lambda>x qs. returns_within e n (G x) T qs) xs pss"
  using assms
proof (induction xs pss rule: list_all2_induct)
  case Nil
  then show ?case by simp
next
  case (Cons x xs qs pss)
  from Cons.hyps(1) obtain m where m: "returns_within e m (G x) T qs"
    by (auto simp: returns_def)
  from Cons.IH obtain n where n: "list_all2 (\<lambda>x qs. returns_within e n (G x) T qs) xs pss"
    by blast
  have "returns_within e (max m n) (G x) T qs"
    using m by (rule returns_within_more_fuel) simp
  moreover have "list_all2 (\<lambda>x qs. returns_within e (max m n) (G x) T qs) xs pss"
    using n by (rule list_all2_mono) (auto intro: returns_within_more_fuel)
  ultimately show ?case by auto
qed

lemma returns_of_empty: "IsEmpty g \<Longrightarrow> returns e (Some g) T ps \<longleftrightarrow> ps = []"
  by (auto simp: returns_def returns_within_def polysplit_def split_empty fresh_def)

lemma oversized_not_empty:
  assumes "0 \<le> T" and "getExteriorRing P = Some ring" and "T < getNumPoints ring"
  shows "\<not> polygon_IsEmpty P"
  using assms
  by (cases P) (auto simp: getExteriorRing_def getNumPoints_def polygon_IsEmpty_def)

lemma quadrant_masks:
  "mask (quadrant_bbox env cx cy 0) = rectangle (MinX env) cx (MinY env) cy"
  "mask (quadrant_bbox env cx cy 1) = rectangle (MinX env) cx cy (MaxY env)"
  "mask (quadrant_bbox env cx cy 2) = rectangle cx (MaxX env) (MinY env) cy"
  "mask (quadrant_bbox env cx cy 3) = rectangle cx (MaxX env) cy (MaxY env)"
  by (simp_all add: mask_def mask_ring_def quadrant_bbox_def rectangle_def)

lemma quadrant_mask_1:
  "mask (quadrant_bbox env cx cy (Suc 0)) = rectangle (MinX env) cx cy (MaxY env)"
  by (simp add: mask_def mask_ring_def quadrant_bbox_def rectangle_def)

lemma list_all2_four:
  "list_all2 R [a, b, c, d] pss \<longleftrightarrow>
   (\<exists>p0 p1 p2 p3. pss = [p0, p1, p2, p3] \<and> R a p0 \<and> R b p1 \<and> R c p2 \<and> R d p3)"
  by (auto simp: list_all2_Cons1)

lemma oversized_returns:
  assumes ne: "\<not> polygon_IsEmpty P" and ring: "getExteriorRing P = Some ring"
    and big: "T < getNumPoints ring" and tidied: "tidy e P = Some G"
  shows "returns e (Some (Polygon P)) T ps \<longleftrightarrow>
    (\<exists>p0 p1 p2 p3.
       returns e (quadrant_piece e G 0) T p0 \<and> returns e (quadrant_piece e G 1) T p1
       \<and> returns e (quadrant_piece e G 2) T p2 \<and> returns e (quadrant_piece e G 3) T p3
       \<and> ps = p0 @ p1 @ p2 @ p3)"
proof
  assume "returns e (Some (Polygon P)) T ps"
  then obtain fuel s where s: "polysplit e fuel (Some (Polygon P)) T = Some (Inr s)"
    and ps: "pieces s = ps"
    by (auto simp: returns_def returns_within_def)
  from s obtain n where fuel: "fuel = Suc n"
    by (cases fuel) (simp_all add: polysplit_def split_big_0 [OF ne ring big tidied])
  have "for_each [0, 1, 2, 3]
      (\<lambda>s' quadrant. split_polygons e n s' (quadrant_piece e G quadrant) T) fresh = Some (Inr s)"
    using s unfolding fuel polysplit_def
    by (simp only: split_big_Suc [OF ne ring big tidied])
  from for_each_pieces [where G = "quadrant_piece e G", OF this]
  obtain pss
    where "list_all2 (\<lambda>x qs. returns_within e n (quadrant_piece e G x) T qs) [0, 1, 2, 3] pss"
      "pieces s = pieces fresh @ concat pss"
    by blast
  then obtain p0 p1 p2 p3
    where "pss = [p0, p1, p2, p3]"
      and "returns_within e n (quadrant_piece e G 0) T p0"
      and "returns_within e n (quadrant_piece e G 1) T p1"
      and "returns_within e n (quadrant_piece e G 2) T p2"
      and "returns_within e n (quadrant_piece e G 3) T p3"
      and "pieces s = pieces fresh @ concat pss"
    unfolding list_all2_four by blast
  then have "returns e (quadrant_piece e G 0) T p0 \<and> returns e (quadrant_piece e G 1) T p1
       \<and> returns e (quadrant_piece e G 2) T p2 \<and> returns e (quadrant_piece e G 3) T p3
       \<and> ps = p0 @ p1 @ p2 @ p3"
    using ps unfolding returns_def by (auto simp: fresh_def)
  then show "\<exists>p0 p1 p2 p3.
       returns e (quadrant_piece e G 0) T p0 \<and> returns e (quadrant_piece e G 1) T p1
       \<and> returns e (quadrant_piece e G 2) T p2 \<and> returns e (quadrant_piece e G 3) T p3
       \<and> ps = p0 @ p1 @ p2 @ p3"
    by blast
next
  assume "\<exists>p0 p1 p2 p3.
       returns e (quadrant_piece e G 0) T p0 \<and> returns e (quadrant_piece e G 1) T p1
       \<and> returns e (quadrant_piece e G 2) T p2 \<and> returns e (quadrant_piece e G 3) T p3
       \<and> ps = p0 @ p1 @ p2 @ p3"
  then obtain p0 p1 p2 p3
    where "list_all2 (\<lambda>x qs. returns e (quadrant_piece e G x) T qs) [0, 1, 2, 3]
        [p0, p1, p2, p3]"
      and ps: "ps = concat [p0, p1, p2, p3]"
    by auto
  from returns_common_fuel [where G = "quadrant_piece e G", OF this(1)]
  obtain n
    where "list_all2 (\<lambda>x qs. returns_within e n (quadrant_piece e G x) T qs) [0, 1, 2, 3]
      [p0, p1, p2, p3]"
    by blast
  from pieces_for_each [where G = "quadrant_piece e G", OF this, of fresh]
  obtain s
    where "for_each [0, 1, 2, 3]
        (\<lambda>s' quadrant. split_polygons e n s' (quadrant_piece e G quadrant) T) fresh
        = Some (Inr s)"
      "pieces s = pieces fresh @ concat [p0, p1, p2, p3]"
    by blast
  then have "polysplit e (Suc n) (Some (Polygon P)) T = Some (Inr s)" "pieces s = ps"
    unfolding polysplit_def using ps
    by (simp_all only: split_big_Suc [OF ne ring big tidied]) (simp add: fresh_def)
  then show "returns e (Some (Polygon P)) T ps"
    by (auto simp: returns_def returns_within_def)
qed

lemma for_each_error:
  assumes "for_each xs body s = Some (Inl err)"
  shows "\<exists>x s'. x \<in> set xs \<and> body s' x = Some (Inl err)"
  using assms
proof (induction xs arbitrary: s)
  case Nil
  then show ?case by simp
next
  case (Cons x xs)
  show ?case
  proof (cases rule: map_result_cases [of "body s x"])
    case 1
    then show ?thesis using Cons.prems by simp
  next
    case (2 err')
    then show ?thesis using Cons.prems by auto
  next
    case (3 s1)
    then have "for_each xs body s1 = Some (Inl err)" using Cons.prems by simp
    from Cons.IH [OF this] show ?thesis by auto
  qed
qed





lemma returns_small:
  assumes "\<not> polygon_IsEmpty P" and "getExteriorRing P = Some ring"
    and "getNumPoints ring \<le> T"
  shows "returns e (Some (Polygon P)) T [P]"
  unfolding returns_def returns_within_def polysplit_def
  by (rule exI [of _ 0]) (simp add: split_small [OF assms] fresh_def)

section \<open>The engine on rectangles and L-shaped polygons\<close>

lemma engine_fields:
  "IsValid notch_engine = (\<lambda>_. True)" "IsSimple notch_engine = (\<lambda>_. True)"
  "Buffer0 notch_engine = (\<lambda>P. Some (Polygon P))" "Centroid notch_engine = notch_Centroid"
  "getEnvelope notch_engine = notch_envelope" "Intersection notch_engine = notch_Intersection"
  by (simp_all add: notch_engine_def)


















text \<open>The six-point square on the engine: its envelope, its centroid, its quadrants.\<close>

lemma square6_facts:
  "getExteriorRing square6 = Some [(0, 0), (0, 2), (1, 2), (2, 2), (2, 0), (0, 0)]"
  "5 < getNumPoints [(0, 0), (0, 2), (1, 2), (2, 2), (2, 0), (0::rat, 0::rat)]"
  "tidy notch_engine square6 = Some (Polygon square6)"
  "notch_envelope (Polygon square6) = \<lparr>MinX = 0, MaxX = 2, MinY = 0, MaxY = 2\<rparr>"
  "notch_Centroid (Polygon square6) = (1, 1)"
  by (simp_all add: square6_def getExteriorRing_def getNumPoints_def tidy_def engine_fields
      notch_envelope_def ring_envelope_def notch_Centroid_def notch_corner_def ring_corner_def
      L_ring_def Let_def)

lemma square6_quadrants:
  "notch_Intersection (rectangle 0 1 0 1) (Polygon square6) = Some (Polygon (rectangle 0 1 0 1))"
  "notch_Intersection (rectangle 0 1 1 2) (Polygon square6) = Some (Polygon (rectangle 0 1 1 2))"
  "notch_Intersection (rectangle 1 2 0 1) (Polygon square6) = Some (Polygon (rectangle 1 2 0 1))"
  "notch_Intersection (rectangle 1 2 1 2) (Polygon square6) = Some (Polygon (rectangle 1 2 1 2))"
  by (simp_all add: square6_def notch_Intersection_def notch_envelope_def ring_envelope_def
      notch_corner_def ring_corner_def L_ring_def rectangle_def polygon_IsEmpty_def Let_def)

lemma unit_square_returns:
  "returns e (Some (Polygon (rectangle x0 x1 y0 y1))) 5 [rectangle x0 x1 y0 y1]"
  by (rule returns_small [where ring = "hd (rectangle x0 x1 y0 y1)"])
    (simp_all add: rectangle_def polygon_IsEmpty_def getExteriorRing_def getNumPoints_def)

section \<open>The store model against the value model\<close>

text \<open>
  split_polygons on the store does what split_polygons does on values: started on a sound
  store and a pointer to a live object (or NULL), it returns, ends the program or fails to
  return exactly when the value model does, its pieces read by value are the value model's
  pieces, and every pointer it has pushed names a polygon that is still live: no delete of
  lines 104 and 107 removes a piece.
\<close>

lemma grows_refl: "sound m \<Longrightarrow> grows m m"
  by (simp add: grows_def)

lemma grows_sound: "grows m m' \<Longrightarrow> sound m'"
  by (simp add: grows_def)

lemma grows_trans:
  assumes "sound a" "grows a b" "grows b c"
  shows "grows a c"
proof -
  from assms(2) obtain n1 where n1: "vector b = vector a @ n1"
    "\<forall>x \<in> set n1. unused (heap a) \<le> x \<and> (\<exists>P. objects (heap b) x = Some (Polygon P))"
    unfolding grows_def by blast
  from assms(3) obtain n2 where n2: "vector c = vector b @ n2"
    "\<forall>x \<in> set n2. unused (heap b) \<le> x \<and> (\<exists>P. objects (heap c) x = Some (Polygon P))"
    unfolding grows_def by blast
  have le: "unused (heap a) \<le> unused (heap b)" "unused (heap b) \<le> unused (heap c)"
    using assms(2,3) by (simp_all add: grows_def)
  have keep_b: "\<And>x. x < unused (heap b) \<Longrightarrow> objects (heap c) x = objects (heap b) x"
    using assms(3) by (simp add: grows_def)
  have keep_a: "\<And>x. x < unused (heap a) \<Longrightarrow> objects (heap b) x = objects (heap a) x"
    using assms(2) by (simp add: grows_def)
  have below: "\<forall>x \<in> set n1. x < unused (heap b)"
    using assms(2) n1(1) by (auto simp: grows_def sound_def)
  have "vector c = vector a @ (n1 @ n2)" using n1(1) n2(1) by simp
  moreover have "\<forall>x \<in> set (n1 @ n2). unused (heap a) \<le> x
      \<and> (\<exists>P. objects (heap c) x = Some (Polygon P))"
    using n1(2) n2(2) below keep_b le by auto
  moreover have "\<And>x. x < unused (heap a) \<Longrightarrow> objects (heap c) x = objects (heap a) x"
    using keep_a keep_b le by auto
  ultimately show ?thesis
    using assms(3) le unfolding grows_def by (intro conjI) (auto simp: grows_def)
qed

lemma for_each_simulates:
  assumes len: "length xs = length ys"
    and start: "grows m0 m" and m0: "sound m0"
    and step: "\<And>x y m. (x, y) \<in> set (zip xs ys) \<Longrightarrow> grows m0 m \<Longrightarrow>
      simulates m (bodyM m x) (bodyV (by_value m) y)"
  shows "simulates m (for_each xs bodyM m) (for_each ys bodyV (by_value m))"
  using len start step
proof (induction xs ys arbitrary: m rule: list_induct2)
  case Nil
  then show ?case by (simp add: simulates_def grows_refl grows_sound)
next
  case (Cons x xs y ys)
  have sim: "simulates m (bodyM m x) (bodyV (by_value m) y)"
    by (rule Cons.prems(2)) (use Cons.prems(1) in simp_all)
  show ?case
  proof (cases rule: map_result_cases [of "bodyM m x"])
    case 1
    then show ?thesis using sim by (auto simp: simulates_def)
  next
    case (2 err)
    then have "bodyV (by_value m) y = Some (Inl err)"
      using sim by (auto simp: simulates_def)
    then show ?thesis using 2 by (simp add: simulates_def)
  next
    case (3 m1)
    then have v: "bodyV (by_value m) y = Some (Inr (by_value m1))" and g: "grows m m1"
      using sim by (auto simp: simulates_def)
    have g1: "grows m0 m1"
      using m0 Cons.prems(1) g by (rule grows_trans)
    have rest: "simulates m1 (for_each xs bodyM m1) (for_each ys bodyV (by_value m1))"
      by (rule Cons.IH [OF g1]) (rule Cons.prems(2), simp_all)
    have "grows m m'" if "for_each xs bodyM m1 = Some (Inr m')" for m'
    proof -
      have "grows m1 m'" using rest that by (simp add: simulates_def)
      with g show ?thesis
        using grows_trans [of m m1 m'] grows_sound [OF Cons.prems(1)] by blast
    qed
    then show ?thesis
      using 3 v rest by (simp add: simulates_def)
  qed
qed

lemma mem_NULL:
  "split_polygons_mem e fuel m None T = Some (Inr (m\<lparr>warnings := warnings m @ [NULL_warning]\<rparr>))"
  by simp

lemma mem_empty:
  "deref (heap m) q = Some g \<Longrightarrow> IsEmpty g \<Longrightarrow>
   split_polygons_mem e fuel m (Some q) T = Some (Inr m)"
  by simp

lemma mem_other:
  "deref (heap m) q = Some (OtherGeometry b) \<Longrightarrow>
   split_polygons_mem e fuel m (Some q) T = Some (Inr m)"
  by simp

lemma mem_multi_0:
  "deref (heap m) q = Some (MultiPolygon ms) \<Longrightarrow> \<not> IsEmpty (MultiPolygon ms) \<Longrightarrow>
   split_polygons_mem e 0 m (Some q) T = None"
  by simp

lemma mem_multi_Suc:
  "deref (heap m) q = Some (MultiPolygon ms) \<Longrightarrow> \<not> IsEmpty (MultiPolygon ms) \<Longrightarrow>
   split_polygons_mem e (Suc n) m (Some q) T =
   for_each [0..<length ms]
     (\<lambda>m' i. split_polygons_mem e n m' (Some (getGeometryRef q i)) T) m"
  by simp

lemma mem_small:
  "deref (heap m) q = Some (Polygon P) \<Longrightarrow> \<not> polygon_IsEmpty P \<Longrightarrow>
   getExteriorRing P = Some ring \<Longrightarrow> getNumPoints ring \<le> T \<Longrightarrow>
   split_polygons_mem e fuel m (Some q) T = Some (Inr (push_back_clone P m))"
  by simp

lemma mem_big_NULL:
  "deref (heap m) q = Some (Polygon P) \<Longrightarrow> \<not> polygon_IsEmpty P \<Longrightarrow>
   getExteriorRing P = Some ring \<Longrightarrow> T < getNumPoints ring \<Longrightarrow> tidy e P = None \<Longrightarrow>
   split_polygons_mem e fuel m (Some q) T = Some (Inl NullDereference)"
  by simp

lemma mem_big_0:
  "deref (heap m) q = Some (Polygon P) \<Longrightarrow> \<not> polygon_IsEmpty P \<Longrightarrow>
   getExteriorRing P = Some ring \<Longrightarrow> T < getNumPoints ring \<Longrightarrow> tidy e P = Some G \<Longrightarrow>
   split_polygons_mem e 0 m (Some q) T = None"
  by simp

lemma mem_big_Suc:
  "deref (heap m) q = Some (Polygon P) \<Longrightarrow> \<not> polygon_IsEmpty P \<Longrightarrow>
   getExteriorRing P = Some ring \<Longrightarrow> T < getNumPoints ring \<Longrightarrow> tidy e P = Some G \<Longrightarrow>
   split_polygons_mem e (Suc n) m (Some q) T =
   map_result
     (delete_object
        (if \<not> IsValid e P \<or> \<not> IsSimple e P then Some (unused (heap m)) else None))
     (for_each [0, 1, 2, 3] (quadrant_call e n G T)
        (if \<not> IsValid e P \<or> \<not> IsSimple e P then m\<lparr>heap := allocate G (heap m)\<rparr> else m))"
  unfolding quadrant_call_def by simp

declare split_polygons_mem.simps [simp del]

lemma allocate_sound:
  assumes "sound m"
  shows "sound (m\<lparr>heap := allocate g (heap m)\<rparr>)"
    and "by_value (m\<lparr>heap := allocate g (heap m)\<rparr>) = by_value m"
    and "deref (heap (m\<lparr>heap := allocate g (heap m)\<rparr>)) (Object (unused (heap m))) = Some g"
    and "grows m (m\<lparr>heap := allocate g (heap m)\<rparr>)"
proof -
  show 1: "sound (m\<lparr>heap := allocate g (heap m)\<rparr>)"
    using assms by (auto simp: sound_def allocate_def)
  show "by_value (m\<lparr>heap := allocate g (heap m)\<rparr>) = by_value m"
    using assms by (auto simp: sound_def allocate_def by_value_def polygon_at_def)
  show "deref (heap (m\<lparr>heap := allocate g (heap m)\<rparr>)) (Object (unused (heap m))) = Some g"
    by (simp add: deref_def allocate_def)
  show "grows m (m\<lparr>heap := allocate g (heap m)\<rparr>)"
    unfolding grows_def using 1 by (simp add: allocate_def)
qed

lemma deref_allocate: "deref (allocate g h) (Object (unused h)) = Some g"
  by (simp add: deref_def allocate_def)

lemma scoped_object:
  assumes m: "sound m"
    and sim: "simulates (m\<lparr>heap := allocate g (heap m)\<rparr>) r v"
  shows "simulates m (map_result (delete_object (Some (unused (heap m)))) r) v"
proof (cases rule: map_result_cases [of r])
  case 1
  then show ?thesis using sim by (simp add: simulates_def)
next
  case (2 err)
  then show ?thesis using sim by (simp add: simulates_def)
next
  case (3 m3)
  let ?c = "unused (heap m)"
  let ?m2 = "m\<lparr>heap := allocate g (heap m)\<rparr>"
  let ?m4 = "delete_object (Some ?c) m3"
  from 3 sim have v: "v = Some (Inr (by_value m3))" and g: "grows ?m2 m3"
    by (auto simp: simulates_def)
  from g obtain new where new: "vector m3 = vector m @ new"
    "\<forall>a \<in> set new. Suc ?c \<le> a \<and> (\<exists>P. objects (heap m3) a = Some (Polygon P))"
    unfolding grows_def by (auto simp: allocate_def)
  have old: "\<forall>a \<in> set (vector m). a < ?c" using m by (simp add: sound_def)
  have notin: "?c \<notin> set (vector m3)" using new old by auto
  have same: "by_value ?m4 = by_value m3"
    using notin by (auto simp: by_value_def delete_object_def delete_def polygon_at_def)
  have sound3: "sound m3" using g by (rule grows_sound)
  have le: "Suc ?c \<le> unused (heap m3)" using g by (simp add: grows_def allocate_def)
  have keep: "\<And>a. a < ?c \<Longrightarrow> objects (heap m3) a = objects (heap m) a"
    using g by (simp add: grows_def allocate_def)
  have "sound ?m4"
    using sound3 by (auto simp: sound_def delete_object_def delete_def)
  moreover have "unused (heap m) \<le> unused (heap ?m4)"
    using le by (simp add: delete_object_def delete_def)
  moreover have "\<forall>a. a < ?c \<longrightarrow> objects (heap ?m4) a = objects (heap m) a"
    using keep by (simp add: delete_object_def delete_def)
  moreover have "vector ?m4 = vector m @ new"
    using new(1) by (simp add: delete_object_def)
  moreover have "\<forall>a \<in> set new. ?c \<le> a \<and> (\<exists>P. objects (heap ?m4) a = Some (Polygon P))"
    using new(2) by (auto simp: delete_object_def delete_def)
  ultimately have "grows m ?m4" unfolding grows_def by blast
  then show ?thesis using 3 v same by (simp add: simulates_def)
qed

lemma push_back_clone_simulates:
  assumes "sound m"
  shows "simulates m (Some (Inr (push_back_clone P m)))
    (Some (Inr ((by_value m)\<lparr>pieces := pieces (by_value m) @ [P]\<rparr>)))"
proof -
  let ?m' = "push_back_clone P m"
  have old: "\<forall>a \<in> set (vector m). a < unused (heap m)" using assms by (simp add: sound_def)
  have "by_value ?m' = (by_value m)\<lparr>pieces := pieces (by_value m) @ [P]\<rparr>"
    using old
    by (auto simp: by_value_def push_back_clone_def allocate_def polygon_at_def clone_def)
  moreover have "sound ?m'"
    using assms by (auto simp: sound_def push_back_clone_def allocate_def)
  then have "grows m ?m'"
    unfolding grows_def by (simp add: push_back_clone_def allocate_def)
  ultimately show ?thesis by (simp add: simulates_def)
qed

lemma warning_simulates:
  assumes "sound m"
  shows "simulates m (Some (Inr (m\<lparr>warnings := warnings m @ [w]\<rparr>)))
    (Some (Inr ((by_value m)\<lparr>cerr := cerr (by_value m) @ [w]\<rparr>)))"
  using assms by (simp add: simulates_def by_value_def grows_def sound_def)

lemma return_simulates: "sound m \<Longrightarrow> simulates m (Some (Inr m)) (Some (Inr (by_value m)))"
  by (simp add: simulates_def grows_refl)

lemma deref_below:
  assumes "sound m" and "deref (heap m) q = Some g"
  shows "address_of q < unused (heap m)"
proof (rule ccontr)
  assume "\<not> address_of q < unused (heap m)"
  then have "objects (heap m) (address_of q) = None"
    using assms(1) by (simp add: sound_def)
  then show False using assms(2) by (cases q) (simp_all add: deref_def address_of_def)
qed

lemma multi_is_object:
  assumes "deref (heap m) q = Some (MultiPolygon ms)"
  shows "objects (heap m) (address_of q) = Some (MultiPolygon ms)"
  using assms
  by (cases q) (auto simp: deref_def address_of_def split: option.splits OGRGeometry.splits
      if_splits)

lemma store_simulates:
  assumes "sound m" and "p = None \<or> target m p \<noteq> None"
  shows "simulates m (split_polygons_mem e n m p T)
    (split_polygons e n (by_value m) (target m p) T)"
  using assms
proof (induction n arbitrary: m p)
  case 0
  show ?case
  proof (cases p)
    case None
    then show ?thesis
      using warning_simulates [OF "0.prems"(1)] by (simp add: target_def mem_NULL split_NULL)
  next
    case (Some q)
    then obtain g where g: "deref (heap m) q = Some g"
      using "0.prems"(2) by (auto simp: target_def)
    then have t: "target m p = Some g" using Some by (simp add: target_def)
    have "simulates m (split_polygons_mem e 0 m (Some q) T)
        (split_polygons e 0 (by_value m) (Some g) T)"
    proof (cases rule: geometry_cases [where g = "Some g" and e = e and T = T])
      case null
      then show ?thesis by simp
    next
      case (empty x)
      then show ?thesis
        using g return_simulates [OF "0.prems"(1)] by (simp add: mem_empty split_empty)
    next
      case (other b)
      then show ?thesis
        using g return_simulates [OF "0.prems"(1)] by (simp add: mem_other split_other)
    next
      case (multi ms)
      then show ?thesis
        using g by (simp add: mem_multi_0 split_multi_0 simulates_def)
    next
      case (small P ring)
      then show ?thesis
        using g push_back_clone_simulates [OF "0.prems"(1), of P]
        by (simp add: mem_small [OF _ small(2-4)] split_small [OF small(2-4)])
    next
      case (failed P ring)
      then show ?thesis
        using g
        by (simp add: mem_big_NULL [OF _ failed(2-5)] split_big_NULL [OF failed(2-5)]
            simulates_def)
    next
      case (big P ring G)
      then show ?thesis
        using g
        by (simp add: mem_big_0 [OF _ big(2-5)] split_big_0 [OF big(2-5)] simulates_def)
    qed
    then show ?thesis using t by (simp add: Some)
  qed
next
  case (Suc n)
  note sound = Suc.prems(1)
  show ?case
  proof (cases p)
    case None
    then show ?thesis
      using warning_simulates [OF sound] by (simp add: target_def mem_NULL split_NULL)
  next
    case (Some q)
    then obtain g where g: "deref (heap m) q = Some g"
      using Suc.prems(2) by (auto simp: target_def)
    then have t: "target m p = Some g" using Some by (simp add: target_def)
    have "simulates m (split_polygons_mem e (Suc n) m (Some q) T)
        (split_polygons e (Suc n) (by_value m) (Some g) T)"
    proof (cases rule: geometry_cases [where g = "Some g" and e = e and T = T])
      case null
      then show ?thesis by simp
    next
      case (empty x)
      then show ?thesis
        using g return_simulates [OF sound] by (simp add: mem_empty split_empty)
    next
      case (other b)
      then show ?thesis
        using g return_simulates [OF sound] by (simp add: mem_other split_other)
    next
      case (small P ring)
      then show ?thesis
        using g push_back_clone_simulates [OF sound, of P]
        by (simp add: mem_small [OF _ small(2-4)] split_small [OF small(2-4)])
    next
      case (failed P ring)
      then show ?thesis
        using g
        by (simp add: mem_big_NULL [OF _ failed(2-5)] split_big_NULL [OF failed(2-5)]
            simulates_def)
    next
      case (multi ms)
      then have gm: "deref (heap m) q = Some (MultiPolygon ms)" using g by simp
      have at: "objects (heap m) (address_of q) = Some (MultiPolygon ms)"
        using gm by (rule multi_is_object)
      have below: "address_of q < unused (heap m)"
        using sound gm by (rule deref_below)
      have step: "simulates m' (split_polygons_mem e n m' (Some (getGeometryRef q i)) T)
          (split_polygons e n (by_value m') (Some (Polygon y)) T)"
        if "(i, y) \<in> set (zip [0..<length ms] ms)" and "grows m m'" for i y m'
      proof -
        from that(1) have i: "i < length ms" "y = ms ! i"
          by (auto simp: set_zip)
        have "objects (heap m') (address_of q) = Some (MultiPolygon ms)"
          using that(2) below at by (simp add: grows_def)
        then have "target m' (Some (getGeometryRef q i)) = Some (Polygon y)"
          using i by (simp add: target_def getGeometryRef_def deref_def address_of_def)
        moreover have "sound m'" using that(2) by (rule grows_sound)
        ultimately show ?thesis
          using Suc.IH [of m' "Some (getGeometryRef q i)"] by simp
      qed
      have "simulates m
          (for_each [0..<length ms]
             (\<lambda>m' i. split_polygons_mem e n m' (Some (getGeometryRef q i)) T) m)
          (for_each ms (\<lambda>s' member. split_polygons e n s' (Some (Polygon member)) T)
             (by_value m))"
        by (rule for_each_simulates [where ?m0.0 = m])
          (simp_all add: grows_refl sound step)
      then show ?thesis
        using multi(1)
        by (simp only: mem_multi_Suc [OF gm multi(2)] split_multi_Suc [OF multi(2)]
            option.inject)
    next
      case (big P ring G)
      then have gp: "deref (heap m) q = Some (Polygon P)" using g by simp
      let ?pwned = "\<not> IsValid e P \<or> \<not> IsSimple e P"
      let ?start = "if ?pwned then m\<lparr>heap := allocate G (heap m)\<rparr> else m"
      have start: "sound ?start" "by_value ?start = by_value m"
        using allocate_sound(1,2) [OF sound, of G] sound by auto
      have step: "simulates m' (quadrant_call e n G T m' x)
          (split_polygons e n (by_value m') (quadrant_piece e G x) T)"
        if "grows ?start m'" for x m'
      proof -
        have s': "sound m'" using that by (rule grows_sound)
        show ?thesis
        proof (cases "quadrant_piece e G x")
          case None
          then show ?thesis
            using Suc.IH [of m' None] s' by (simp add: quadrant_call_def target_def)
        next
          case (Some piece)
          let ?m2 = "m'\<lparr>heap := allocate piece (heap m')\<rparr>"
          have "simulates ?m2
              (split_polygons_mem e n ?m2 (Some (Object (unused (heap m')))) T)
              (split_polygons e n (by_value ?m2)
                 (target ?m2 (Some (Object (unused (heap m'))))) T)"
            by (rule Suc.IH)
              (simp_all add: allocate_sound [OF s'] target_def deref_allocate)
          then have "simulates ?m2
              (split_polygons_mem e n ?m2 (Some (Object (unused (heap m')))) T)
              (split_polygons e n (by_value m') (Some piece) T)"
            by (simp add: allocate_sound [OF s'] target_def deref_allocate)
          from scoped_object [OF s' this] show ?thesis
            by (simp add: quadrant_call_def Some)
        qed
      qed
      have loop: "simulates ?start (for_each [0, 1, 2, 3] (quadrant_call e n G T) ?start)
          (for_each [0, 1, 2, 3]
             (\<lambda>s' quadrant. split_polygons e n s' (quadrant_piece e G quadrant) T)
             (by_value ?start))"
      proof (rule for_each_simulates [where ?m0.0 = "?start"])
        show "length [0, 1, 2, 3::nat] = length [0, 1, 2, 3::nat]" by simp
        show "grows ?start ?start" by (rule grows_refl [OF start(1)])
        show "sound ?start" by (rule start(1))
        fix x y :: nat and m'
        assume xy: "(x, y) \<in> set (zip [0, 1, 2, 3] [0, 1, 2, 3])" and g': "grows ?start m'"
        from xy have "x = y" by auto
        then show "simulates m' (quadrant_call e n G T m' x)
            (split_polygons e n (by_value m') (quadrant_piece e G y) T)"
          using step [OF g'] by simp
      qed
      have "simulates m
          (map_result (delete_object (if ?pwned then Some (unused (heap m)) else None))
             (for_each [0, 1, 2, 3] (quadrant_call e n G T) ?start))
          (for_each [0, 1, 2, 3]
             (\<lambda>s' quadrant. split_polygons e n s' (quadrant_piece e G quadrant) T)
             (by_value m))"
      proof (cases ?pwned)
        case True
        then show ?thesis
          using scoped_object [OF sound, of G] loop start(2) by simp
      next
        case False
        have "map_result (delete_object None) r = r" for r :: "'a memory result"
          by (cases rule: map_result_cases [of r]) (simp_all add: delete_object_def)
        then show ?thesis using False loop by simp
      qed
      then show ?thesis
        using big(1)
        by (simp only: mem_big_Suc [OF gp big(2-5)] split_big_Suc [OF big(2-5)] option.inject)
    qed
    then show ?thesis using t by (simp add: Some)
  qed
qed

section \<open>The claims\<close>

text \<open>
  C5. A non-empty polygon \<open>P\<close> whose exterior ring has at most \<open>T\<close> points (also exactly
  \<open>T\<close>) is returned as the one piece, whatever the depth allowed and with no warning:
  \<open>split(P, T)\<close> is the single piece \<open>P\<close>. On the store, the call pushes one pointer, to an
  object that did not exist before the call and holds a copy of \<open>P\<close>; it is not the pointer
  it was given, nothing else in the store changes, and the piece is still there when the
  object it was copied from is deleted.
\<close>

theorem small_polygon_is_the_piece:
  assumes "\<not> polygon_IsEmpty P" and "getExteriorRing P = Some ring"
    and "getNumPoints ring \<le> T"
    and "deref (heap m) p = Some (Polygon P)"
    and "objects (heap m) (unused (heap m)) = None"
  shows "polysplit e fuel (Some (Polygon P)) T = Some (Inr \<lparr>pieces = [P], cerr = []\<rparr>)
    \<and> (\<exists>m'. split_polygons_mem e fuel m (Some p) T = Some (Inr m')
          \<and> vector m' = vector m @ [unused (heap m)]
          \<and> warnings m' = warnings m
          \<and> deref (heap m') (Object (unused (heap m))) = Some (Polygon P)
          \<and> p \<noteq> Object (unused (heap m))
          \<and> address_of p \<noteq> unused (heap m)
          \<and> objects (heap m') = (objects (heap m))(unused (heap m) := Some (Polygon P))
          \<and> deref (heap m') p = Some (Polygon P)
          \<and> deref (delete (address_of p) (heap m')) (Object (unused (heap m)))
              = Some (Polygon P))"
proof -
  define m' where "m' = push_back_clone P m"
  have by_value: "polysplit e fuel (Some (Polygon P)) T = Some (Inr \<lparr>pieces = [P], cerr = []\<rparr>)"
    using assms(1-3) by (simp add: polysplit_def split_small fresh_def)
  have source: "address_of p \<noteq> unused (heap m)"
    using assms(4,5) by (cases p) (auto simp: deref_def address_of_def)
  then have pointer: "p \<noteq> Object (unused (heap m))"
    by (auto simp: address_of_def)
  have run: "split_polygons_mem e fuel m (Some p) T = Some (Inr m')"
    unfolding m'_def using assms(4,1,2,3) by (rule mem_small)
  have pushed: "vector m' = vector m @ [unused (heap m)]"
    and silent: "warnings m' = warnings m"
    and store: "objects (heap m') = (objects (heap m))(unused (heap m) := Some (Polygon P))"
    by (simp_all add: m'_def push_back_clone_def allocate_def clone_def)
  have copy: "deref (heap m') (Object (unused (heap m))) = Some (Polygon P)"
    by (simp add: deref_def store)
  have kept: "deref (heap m') p = Some (Polygon P)"
    using assms(4) source by (cases p) (auto simp: deref_def store address_of_def)
  have survives:
    "deref (delete (address_of p) (heap m')) (Object (unused (heap m))) = Some (Polygon P)"
    using source by (simp add: deref_def delete_def store)
  show ?thesis
    using by_value run pushed silent copy pointer source store kept survives by blast
qed

theorem small_polygon_is_the_piece_witness:
  "\<not> polygon_IsEmpty square10
   \<and> getExteriorRing square10 = Some [(0, 0), (0, 10), (10, 10), (10, 0), (0, 0)]
   \<and> getNumPoints [(0, 0), (0, 10), (10, 10), (10, 0), (0::rat, 0::rat)] \<le> 5
   \<and> deref (heap store10) (Object 0) = Some (Polygon square10)
   \<and> objects (heap store10) (unused (heap store10)) = None
   \<and> polysplit notch_engine 0 (Some (Polygon square10)) 5
       = Some (Inr \<lparr>pieces = [square10], cerr = []\<rparr>)
   \<and> (\<exists>m'. split_polygons_mem notch_engine 0 store10 (Some (Object 0)) 5 = Some (Inr m')
         \<and> vector m' = [1]
         \<and> deref (heap m') (Object 1) = Some (Polygon square10)
         \<and> deref (delete 0 (heap m')) (Object 1) = Some (Polygon square10))"
proof -
  have a: "\<not> polygon_IsEmpty square10"
    by (simp add: polygon_IsEmpty_def square10_def rectangle_def)
  have b: "getExteriorRing square10 = Some [(0, 0), (0, 10), (10, 10), (10, 0), (0, 0)]"
    by (simp add: getExteriorRing_def square10_def rectangle_def)
  have c: "getNumPoints [(0, 0), (0, 10), (10, 10), (10, 0), (0::rat, 0::rat)] \<le> 5"
    by (simp add: getNumPoints_def)
  have d: "deref (heap store10) (Object 0) = Some (Polygon square10)"
    by (simp add: store10_def deref_def)
  have f: "objects (heap store10) (unused (heap store10)) = None"
    by (simp add: store10_def)
  have g: "unused (heap store10) = 1" "vector store10 = []" "address_of (Object 0) = 0"
    by (simp_all add: store10_def address_of_def)
  show ?thesis
    using a b c d f small_polygon_is_the_piece [OF a b c d f, of notch_engine 0]
    unfolding g by auto
qed

text \<open>
  C7. For every threshold, a NULL geometry, an empty geometry and a geometry that is neither
  a polygon nor a multipolygon give no piece and end no program: the call returns the state
  it was given. Only the NULL case writes, one warning line to std::cerr.
\<close>

theorem nothing_to_split:
  "split_polygons e fuel s None T = Some (Inr (s\<lparr>cerr := cerr s @ [NULL_warning]\<rparr>))
   \<and> (IsEmpty g \<longrightarrow> split_polygons e fuel s (Some g) T = Some (Inr s))
   \<and> split_polygons e fuel s (Some (OtherGeometry b)) T = Some (Inr s)"
  by (simp add: split_NULL split_empty split_other)

theorem nothing_to_split_witness:
  "IsEmpty (Polygon [[]] :: rat OGRGeometry)
   \<and> split_polygons notch_engine 0 fresh (Some (Polygon [[]])) 6 = Some (Inr fresh)
   \<and> split_polygons notch_engine 0 fresh None 6
       = Some (Inr \<lparr>pieces = [], cerr = [NULL_warning]\<rparr>)
   \<and> split_polygons notch_engine 0 fresh (Some (OtherGeometry False)) 6 = Some (Inr fresh)"
proof -
  have a: "IsEmpty (Polygon [[]] :: rat OGRGeometry)"
    by (simp add: polygon_IsEmpty_def)
  show ?thesis
    using a nothing_to_split [of notch_engine 0 fresh 6 "Polygon [[]]" False]
    by (simp add: fresh_def)
qed

text \<open>
  C10. split_polygons only pushes onto the vector of pieces: when a call returns, the pieces
  that were there before are the first pieces after it, each at its place and unchanged.
\<close>

theorem pieces_only_appended:
  assumes "split_polygons e fuel s g T = Some (Inr s')"
  shows "(\<exists>new. pieces s' = pieces s @ new)
    \<and> take (length (pieces s)) (pieces s') = pieces s"
proof -
  from assms obtain d where "s' = append_splitter s d" by (rule split_polygons_extends)
  then show ?thesis by (simp add: append_splitter_def)
qed

theorem pieces_only_appended_witness:
  "split_polygons notch_engine 1 \<lparr>pieces = [square10], cerr = []\<rparr> (Some (Polygon square6)) 5
     = Some (Inr \<lparr>pieces = [square10, rectangle 0 1 0 1, rectangle 0 1 1 2, rectangle 1 2 0 1,
                               rectangle 1 2 1 2], cerr = []\<rparr>)
   \<and> take 1 [square10, rectangle 0 1 0 1, rectangle 0 1 1 2, rectangle 1 2 0 1,
              rectangle 1 2 1 2] = [square10]"
  using square6_run [of "[square10]" "[]"]
    pieces_only_appended [OF square6_run [of "[square10]" "[]"]]
  by simp

text \<open>
  C1. Whatever \<open>split(P, T)\<close> returns for a polygon \<open>P\<close> with more than \<open>T\<close> points on its
  exterior ring, every piece has an exterior ring of at most \<open>T\<close> points. The code pushes a
  polygon only under the test of line 66, so it never returns an oversized piece; where the
  recursion cannot get below the threshold it does not return at all.
\<close>

theorem every_piece_fits:
  assumes "getExteriorRing P = Some ring" and "T < getNumPoints ring"
    and "returns e (Some (Polygon P)) T ps"
  shows "\<forall>piece \<in> set ps. \<exists>r. getExteriorRing piece = Some r \<and> getNumPoints r \<le> T"
proof -
  from assms(3) obtain fuel s where "polysplit e fuel (Some (Polygon P)) T = Some (Inr s)"
    and ps: "pieces s = ps"
    unfolding returns_def returns_within_def by blast
  from this(1) have "list_all (fits T) (pieces s)"
    unfolding polysplit_def by (rule split_polygons_fits) (simp add: fresh_def)
  then show ?thesis
    using ps by (auto simp: list_all_iff fits_def split: option.splits)
qed

theorem every_piece_fits_witness:
  "getExteriorRing square6 = Some [(0, 0), (0, 2), (1, 2), (2, 2), (2, 0), (0, 0)]
   \<and> 5 < getNumPoints [(0, 0), (0, 2), (1, 2), (2, 2), (2, 0), (0::rat, 0::rat)]
   \<and> returns notch_engine (Some (Polygon square6)) 5
       [rectangle 0 1 0 1, rectangle 0 1 1 2, rectangle 1 2 0 1, rectangle 1 2 1 2]
   \<and> (\<exists>r. getExteriorRing (rectangle 1 2 1 (2::rat)) = Some r \<and> getNumPoints r \<le> 5)"
proof -
  have a: "getExteriorRing square6 = Some [(0, 0), (0, 2), (1, 2), (2, 2), (2, 0), (0, 0)]"
    by (simp add: getExteriorRing_def square6_def)
  have b: "5 < getNumPoints [(0, 0), (0, 2), (1, 2), (2, 2), (2, 0), (0::rat, 0::rat)]"
    by (simp add: getNumPoints_def)
  have "\<forall>piece \<in> set [rectangle 0 1 0 1, rectangle 0 1 1 2, rectangle 1 2 0 1,
        rectangle 1 2 1 (2::rat)].
      \<exists>r. getExteriorRing piece = Some r \<and> getNumPoints r \<le> 5"
    by (rule every_piece_fits [OF a b square6_returns])
  then show ?thesis using a b square6_returns by simp
qed

text \<open>
  C6. A multipolygon is split member by member, in the order of the members, and the pieces
  are put one after the other in that order: \<open>split(MultiPolygon ms, T)\<close> returns \<open>ps\<close>
  exactly when the splits of the members return, and \<open>ps\<close> is the concatenation of what they
  return. For two members: what \<open>split(A, T)\<close> returns followed by what \<open>split(B, T)\<close>
  returns. (It holds for the empty multipolygon too: nothing is returned.)
\<close>

theorem multipolygon_concatenates:
  "returns e (Some (MultiPolygon multi)) T ps \<longleftrightarrow>
   (\<exists>pss. list_all2 (\<lambda>member qs. returns e (Some (Polygon member)) T qs) multi pss
      \<and> ps = concat pss)"
proof (cases "IsEmpty (MultiPolygon multi)")
  case True
  then have members: "\<forall>member \<in> set multi. IsEmpty (Polygon member)"
    by (simp add: list_all_iff)
  have "list_all2 (\<lambda>member qs. returns e (Some (Polygon member)) T qs) multi pss
      \<longleftrightarrow> pss = map (\<lambda>_. []) multi" for pss
    using members
  proof (induction multi arbitrary: pss)
    case Nil
    then show ?case by simp
  next
    case (Cons m ms)
    then show ?case by (cases pss) (auto simp: returns_of_empty)
  qed
  moreover have "concat (map (\<lambda>_. []) multi) = ([] :: 'a OGRPolygon list)"
    by (induction multi) simp_all
  ultimately show ?thesis using True by (auto simp: returns_of_empty)
next
  case False
  show ?thesis
  proof
    assume "returns e (Some (MultiPolygon multi)) T ps"
    then obtain fuel s where s: "polysplit e fuel (Some (MultiPolygon multi)) T = Some (Inr s)"
      and ps: "pieces s = ps"
      by (auto simp: returns_def returns_within_def)
    from s obtain n where fuel: "fuel = Suc n"
      using False by (cases fuel) (simp_all add: polysplit_def split_multi_0)
    have "for_each multi (\<lambda>s' member. split_polygons e n s' (Some (Polygon member)) T) fresh
        = Some (Inr s)"
      using s unfolding fuel polysplit_def by (simp only: split_multi_Suc [OF False])
    from for_each_pieces [where G = "\<lambda>member. Some (Polygon member)", OF this]
    obtain pss
      where "list_all2 (\<lambda>x qs. returns_within e n (Some (Polygon x)) T qs) multi pss"
        "pieces s = pieces fresh @ concat pss"
      by blast
    then have "list_all2 (\<lambda>member qs. returns e (Some (Polygon member)) T qs) multi pss"
      "ps = concat pss"
      using ps by (auto simp: returns_def fresh_def elim!: list_all2_mono)
    then show "\<exists>pss. list_all2 (\<lambda>member qs. returns e (Some (Polygon member)) T qs) multi pss
      \<and> ps = concat pss"
      by blast
  next
    assume "\<exists>pss. list_all2 (\<lambda>member qs. returns e (Some (Polygon member)) T qs) multi pss
      \<and> ps = concat pss"
    then obtain pss
      where all: "list_all2 (\<lambda>member qs. returns e (Some (Polygon member)) T qs) multi pss"
        and ps: "ps = concat pss"
      by blast
    from returns_common_fuel [where G = "\<lambda>member. Some (Polygon member)", OF all]
    obtain n where "list_all2 (\<lambda>x qs. returns_within e n (Some (Polygon x)) T qs) multi pss"
      by blast
    from pieces_for_each [where G = "\<lambda>member. Some (Polygon member)", OF this, of fresh]
    obtain s
      where "for_each multi (\<lambda>s' x. split_polygons e n s' (Some (Polygon x)) T) fresh
          = Some (Inr s)"
        "pieces s = pieces fresh @ concat pss"
      by blast
    then have "polysplit e (Suc n) (Some (MultiPolygon multi)) T = Some (Inr s)" "pieces s = ps"
      unfolding polysplit_def using ps
      by (simp_all only: split_multi_Suc [OF False]) (simp add: fresh_def)
    then show "returns e (Some (MultiPolygon multi)) T ps"
      by (auto simp: returns_def returns_within_def)
  qed
qed

theorem multipolygon_concatenates_witness:
  "returns notch_engine (Some (MultiPolygon [square6, square10])) 5
     ([rectangle 0 1 0 1, rectangle 0 1 1 2, rectangle 1 2 0 1, rectangle 1 2 1 2] @ [square10])"
proof -
  have "returns notch_engine (Some (Polygon square10)) 5 [square10]"
    unfolding square10_def by (rule unit_square_returns)
  then have "list_all2 (\<lambda>member qs. returns notch_engine (Some (Polygon member)) 5 qs)
      [square6, square10]
      [[rectangle 0 1 0 1, rectangle 0 1 1 2, rectangle 1 2 0 1, rectangle 1 2 1 2], [square10]]"
    using square6_returns by simp
  then show ?thesis
    by (subst multipolygon_concatenates) (rule exI, erule conjI, simp)
qed

text \<open>
  C4. For a polygon with more than \<open>T\<close> points on its exterior ring (\<open>T\<close> not negative), let
  \<open>G\<close> be the polygon after the repair of lines 71 to 75. The code makes the four masks
  \<open>minX..cx, minY..cy\<close>, \<open>minX..cx, cy..maxY\<close>, \<open>cx..maxX, minY..cy\<close> and
  \<open>cx..maxX, cy..maxY\<close> from the envelope and the centroid of \<open>G\<close>, intersects each with \<open>G\<close>
  and recurses on each intersection with the same threshold: the call returns exactly when
  the four recursive calls return, and its pieces are theirs, one after the other. Whatever
  vector it was given, it appends these pieces to it.
\<close>

theorem oversized_polygon_quadrants:
  assumes "0 \<le> T" and "getExteriorRing P = Some ring" and "T < getNumPoints ring"
    and "tidy e P = Some G"
  shows "let env = getEnvelope e G; cx = fst (Centroid e G); cy = snd (Centroid e G);
             m0 = rectangle (MinX env) cx (MinY env) cy;
             m1 = rectangle (MinX env) cx cy (MaxY env);
             m2 = rectangle cx (MaxX env) (MinY env) cy;
             m3 = rectangle cx (MaxX env) cy (MaxY env)
         in (returns e (Some (Polygon P)) T ps \<longleftrightarrow>
               (\<exists>p0 p1 p2 p3.
                  returns e (Intersection e m0 G) T p0 \<and> returns e (Intersection e m1 G) T p1
                  \<and> returns e (Intersection e m2 G) T p2 \<and> returns e (Intersection e m3 G) T p3
                  \<and> ps = p0 @ p1 @ p2 @ p3))
            \<and> (\<forall>fuel s s'.
                  split_polygons e fuel s (Some (Polygon P)) T = Some (Inr s') \<longrightarrow>
                  (\<exists>new. returns e (Some (Polygon P)) T new \<and> pieces s' = pieces s @ new))"
proof -
  have ne: "\<not> polygon_IsEmpty P"
    using assms(1-3) by (rule oversized_not_empty)
  have acc: "\<exists>new. returns e (Some (Polygon P)) T new \<and> pieces s' = pieces s @ new"
    if "split_polygons e fuel s (Some (Polygon P)) T = Some (Inr s')" for fuel s s'
  proof -
    from that obtain d where "polysplit e fuel (Some (Polygon P)) T = Some (Inr d)"
      "s' = append_splitter s d"
      by (auto simp: split_polygons_returns)
    then show ?thesis
      by (auto simp: returns_def returns_within_def append_splitter_def)
  qed
  have quadrants:
    "quadrant_piece e G 0 = Intersection e
       (rectangle (MinX (getEnvelope e G)) (fst (Centroid e G)) (MinY (getEnvelope e G))
          (snd (Centroid e G))) G"
    "quadrant_piece e G 1 = Intersection e
       (rectangle (MinX (getEnvelope e G)) (fst (Centroid e G)) (snd (Centroid e G))
          (MaxY (getEnvelope e G))) G"
    "quadrant_piece e G 2 = Intersection e
       (rectangle (fst (Centroid e G)) (MaxX (getEnvelope e G)) (MinY (getEnvelope e G))
          (snd (Centroid e G))) G"
    "quadrant_piece e G 3 = Intersection e
       (rectangle (fst (Centroid e G)) (MaxX (getEnvelope e G)) (snd (Centroid e G))
          (MaxY (getEnvelope e G))) G"
    by (simp_all only: quadrant_piece_def quadrant_masks)
  note main = oversized_returns [OF ne assms(2-4), of ps, unfolded quadrants]
  show ?thesis
    unfolding Let_def by (intro conjI allI impI) (rule main, rule acc)
qed

theorem oversized_polygon_quadrants_witness:
  "(0::int) \<le> 5
   \<and> getExteriorRing square6 = Some [(0, 0), (0, 2), (1, 2), (2, 2), (2, 0), (0, 0)]
   \<and> 5 < getNumPoints [(0, 0), (0, 2), (1, 2), (2, 2), (2, 0), (0::rat, 0::rat)]
   \<and> tidy notch_engine square6 = Some (Polygon square6)
   \<and> returns notch_engine (Intersection notch_engine (rectangle 0 1 0 1) (Polygon square6)) 5
       [rectangle 0 1 0 1]
   \<and> returns notch_engine (Intersection notch_engine (rectangle 1 2 1 2) (Polygon square6)) 5
       [rectangle 1 2 1 2]
   \<and> returns notch_engine (Some (Polygon square6)) 5
       [rectangle 0 1 0 1, rectangle 0 1 1 2, rectangle 1 2 0 1, rectangle 1 2 1 2]"
proof -
  have T: "(0::int) \<le> 5" by simp
  note quadrants =
    oversized_polygon_quadrants [OF T square6_facts(1-3),
      of "[rectangle 0 1 0 1, rectangle 0 1 1 2, rectangle 1 2 0 1, rectangle 1 2 1 2]",
      unfolded Let_def, THEN conjunct1]
  have pieces: "returns notch_engine (Some (Polygon square6)) 5
      [rectangle 0 1 0 1, rectangle 0 1 1 2, rectangle 1 2 0 1, rectangle 1 2 1 2]"
    apply (rule iffD2 [OF quadrants])
    apply (rule exI [of _ "[rectangle 0 1 0 1]"], rule exI [of _ "[rectangle 0 1 1 2]"],
        rule exI [of _ "[rectangle 1 2 0 1]"], rule exI [of _ "[rectangle 1 2 1 2]"])
    apply (simp add: engine_fields square6_facts square6_quadrants unit_square_returns)
    done
  show ?thesis
    using T square6_facts(1-3) pieces
    by (simp add: engine_fields square6_quadrants unit_square_returns)
qed

text \<open>
  C8. A polygon with more than \<open>T\<close> points that is not valid or not simple is replaced by
  its zero-distance buffer \<open>G\<close> before it is subdivided: the centroid, the envelope and all
  four intersections are those of \<open>G\<close>. The buffer is taken once in the call; \<open>G\<close> is not
  tested or buffered again. The call itself ends no program: if it ends one, a recursive
  call on one of the four quadrants did. (Here Buffer has answered a geometry; on the NULL
  that Buffer answers when it fails, line 78 calls through NULL.)
\<close>

theorem invalid_polygon_is_buffered:
  assumes "0 \<le> T" and "getExteriorRing P = Some ring" and "T < getNumPoints ring"
    and "\<not> IsValid e P \<or> \<not> IsSimple e P" and "Buffer0 e P = Some G"
  shows "split_polygons e (Suc n) s (Some (Polygon P)) T =
           for_each [0, 1, 2, 3]
             (\<lambda>s' quadrant.
                split_polygons e n s'
                  (Intersection e
                     (mask (quadrant_bbox (getEnvelope e G) (fst (Centroid e G))
                        (snd (Centroid e G)) quadrant))
                     G)
                  T)
             s
         \<and> (split_polygons e fuel s (Some (Polygon P)) T = Some (Inl err) \<longrightarrow>
              (\<exists>m s' quadrant. fuel = Suc m \<and> quadrant < 4
                 \<and> split_polygons e m s' (quadrant_piece e G quadrant) T = Some (Inl err)))"
proof -
  have ne: "\<not> polygon_IsEmpty P"
    using assms(1-3) by (rule oversized_not_empty)
  have tidied: "tidy e P = Some G"
    using assms(4,5) by (auto simp: tidy_def)
  note step = split_big_Suc [OF ne assms(2,3) tidied]
  have "\<exists>m s' quadrant. fuel = Suc m \<and> quadrant < 4
      \<and> split_polygons e m s' (quadrant_piece e G quadrant) T = Some (Inl err)"
    if err: "split_polygons e fuel s (Some (Polygon P)) T = Some (Inl err)"
  proof (cases fuel)
    case 0
    then show ?thesis using err by (simp add: split_big_0 [OF ne assms(2,3) tidied])
  next
    case (Suc m)
    have "for_each [0, 1, 2, 3]
        (\<lambda>s' quadrant. split_polygons e m s' (quadrant_piece e G quadrant) T) s = Some (Inl err)"
      using err unfolding Suc by (simp only: step)
    from for_each_error [OF this] obtain q s'
      where "q \<in> set [0, 1, 2, 3::nat]"
        "split_polygons e m s' (quadrant_piece e G q) T = Some (Inl err)"
      by blast
    then show ?thesis using Suc by (intro exI [of _ m] exI [of _ s'] exI [of _ q]) auto
  qed
  then show ?thesis
    by (simp only: step quadrant_piece_def) simp
qed

theorem invalid_polygon_is_buffered_witness:
  "(0::int) \<le> 5
   \<and> getExteriorRing square6 = Some [(0, 0), (0, 2), (1, 2), (2, 2), (2, 0), (0, 0)]
   \<and> 5 < getNumPoints [(0, 0), (0, 2), (1, 2), (2, 2), (2, 0), (0::rat, 0::rat)]
   \<and> \<not> IsValid wary_engine square6
   \<and> Buffer0 wary_engine square6 = Some (Polygon square6)
   \<and> split_polygons wary_engine 1 fresh (Some (Polygon square6)) 5
       = Some (Inr \<lparr>pieces = [rectangle 0 1 0 1, rectangle 0 1 1 2, rectangle 1 2 0 1,
                                 rectangle 1 2 1 2], cerr = []\<rparr>)"
proof -
  have T: "(0::int) \<le> 5" by simp
  have invalid: "\<not> IsValid wary_engine square6 \<or> \<not> IsSimple wary_engine square6"
    and buffer: "Buffer0 wary_engine square6 = Some (Polygon square6)"
    by (simp_all add: wary_engine_def notch_engine_def)
  have fields: "Intersection wary_engine = notch_Intersection"
    "getEnvelope wary_engine = notch_envelope" "Centroid wary_engine = notch_Centroid"
    by (simp_all add: wary_engine_def notch_engine_def)
  have small: "split_polygons wary_engine 0 s (Some (Polygon (rectangle x0 x1 y0 y1))) 5
      = Some (Inr (s\<lparr>pieces := pieces s @ [rectangle x0 x1 y0 y1]\<rparr>))" for s x0 x1 y0 y1
    by (rule split_small [where ring = "hd (rectangle x0 x1 y0 y1)"])
      (simp_all add: rectangle_def polygon_IsEmpty_def getExteriorRing_def getNumPoints_def)
  have "split_polygons wary_engine 1 fresh (Some (Polygon square6)) 5
      = Some (Inr \<lparr>pieces = [rectangle 0 1 0 1, rectangle 0 1 1 2, rectangle 1 2 0 1,
                                rectangle 1 2 1 2], cerr = []\<rparr>)"
    using invalid_polygon_is_buffered [OF T square6_facts(1,2) invalid buffer,
        of 0 fresh 0 NullDereference, THEN conjunct1]
    by (simp add: fields square6_facts quadrant_masks quadrant_mask_1 square6_quadrants small
        fresh_def)
  then show ?thesis
    using T square6_facts(1,2) invalid buffer by (simp add: wary_engine_def)
qed




text \<open>
  C9. main sends every run whose threshold, after the options are read, is 5 or less to
  usage, which prints the usage text and exits with status 1: nothing is opened, split or
  written. A run that does not end this way has a threshold above 5, and from line 200 on
  (\<open>run\<close>) split_polygons is only called with that threshold.
\<close>

theorem small_threshold_is_refused:
  "(parse_options (atoi w) opts defaults = Some c \<and> max_vertices c \<le> 5 \<longrightarrow>
      main e w fuel opts args = Some (Inr (Exit 1 \<lparr>stderr = [usage_text], written = []\<rparr>)))
   \<and> (main e w fuel opts args \<noteq> Some (Inr (Exit 1 \<lparr>stderr = [usage_text], written = []\<rparr>)) \<longrightarrow>
        (\<exists>c'. parse_options (atoi w) opts defaults = Some c' \<and> 5 < max_vertices c'
           \<and> main e w fuel opts args = run e w fuel c' args \<lparr>stderr = [], written = []\<rparr>))"
  by (cases "parse_options (atoi w) opts defaults") (auto simp: main_def usage_def)

theorem small_threshold_is_refused_witness:
  "parse_options (atoi closed_world) [(CHR ''m'', ''4'')] defaults
     = Some (defaults\<lparr>max_vertices := 4\<rparr>)
   \<and> max_vertices (defaults\<lparr>max_vertices := 4\<rparr>) \<le> 5
   \<and> main notch_engine closed_world 0 [(CHR ''m'', ''4'')] [''in.shp'', ''out.shp'']
       = Some (Inr (Exit 1 \<lparr>stderr = [usage_text], written = []\<rparr>))"
proof -
  have a: "parse_options (atoi closed_world) [(CHR ''m'', ''4'')] defaults
      = Some (defaults\<lparr>max_vertices := 4\<rparr>)"
    by (simp add: closed_world_def)
  have b: "max_vertices (defaults\<lparr>max_vertices := 4\<rparr>) \<le> 5" by simp
  show ?thesis
    using a b
      small_threshold_is_refused [of closed_world "[(CHR ''m'', ''4'')]"
        "defaults\<lparr>max_vertices := 4\<rparr>" notch_engine 0 "[''in.shp'', ''out.shp'']"]
    by blast
qed

end
